theory Spec2Isabelle
  imports Main "HOL-Library.Sublist" "HOL-Library.AList"
begin

section \<open>JavaScript strings\<close>

text \<open>
  A string is a list of code units; the model keeps the code units below 256 (\<open>char\<close>).
  \<open>isWhiteSpace\<close> is what \<^verbatim>\<open>\s\<close> and \<^verbatim>\<open>String.prototype.trim\<close> take for white space
  there (tab, the line terminators, VT, FF, space, NBSP); \<open>toUpperCase\<close> and
  \<open>toLowerCase\<close> are the case mappings that stay below 256.
\<close>

definition isLineTerminator :: "char \<Rightarrow> bool" where
  "isLineTerminator c = (c = CHR 0x0A \<or> c = CHR 0x0D)"

definition isWhiteSpace :: "char \<Rightarrow> bool" where
  "isWhiteSpace c = (c \<in> set [CHR 0x09, CHR 0x0A, CHR 0x0B, CHR 0x0C, CHR 0x0D, CHR 0x20, CHR 0xA0])"

definition isDigit :: "char \<Rightarrow> bool" where
  "isDigit c = (48 \<le> (of_char c :: nat) \<and> (of_char c :: nat) \<le> 57)"

definition isUpper :: "char \<Rightarrow> bool" where
  "isUpper c = (65 \<le> (of_char c :: nat) \<and> (of_char c :: nat) \<le> 90)"

definition isLower :: "char \<Rightarrow> bool" where
  "isLower c = (97 \<le> (of_char c :: nat) \<and> (of_char c :: nat) \<le> 122)"

definition isWordChar :: "char \<Rightarrow> bool" where
  "isWordChar c = (isUpper c \<or> isLower c \<or> isDigit c \<or> c = CHR ''_'')"

definition toUpperCase :: "char \<Rightarrow> char" where
  "toUpperCase c =
     (let n = (of_char c :: nat)
      in if (97 \<le> n \<and> n \<le> 122) \<or> (224 \<le> n \<and> n \<le> 254 \<and> n \<noteq> 247)
         then char_of (n - 32) else c)"

definition toLowerCase :: "char \<Rightarrow> char" where
  "toLowerCase c =
     (let n = (of_char c :: nat)
      in if (65 \<le> n \<and> n \<le> 90) \<or> (192 \<le> n \<and> n \<le> 222 \<and> n \<noteq> 215)
         then char_of (n + 32) else c)"

definition substring :: "string \<Rightarrow> nat \<Rightarrow> nat \<Rightarrow> string" where
  "substring t s e = take (e - s) (drop s t)"

definition startsAt :: "string \<Rightarrow> string \<Rightarrow> nat \<Rightarrow> bool" where
  "startsAt p t i = (take (length p) (drop i t) = p)"

fun includes' :: "string \<Rightarrow> string \<Rightarrow> bool" where
  "includes' [] p = (p = [])"
| "includes' (c # cs) p = (take (length p) (c # cs) = p \<or> includes' cs p)"

definition trim :: "string \<Rightarrow> string" where
  "trim s = rev (dropWhile isWhiteSpace (rev (dropWhile isWhiteSpace s)))"

section \<open>Regular expressions\<close>

text \<open>
  The patterns of the sources are kept as pattern strings and read by \<open>parseRegex\<close>, a
  parser of the part of the ECMAScript pattern syntax they use: characters, escapes,
  \<^verbatim>\<open>.\<close>, classes with ranges and class escapes, \<^verbatim>\<open>^\<close>, \<^verbatim>\<open>$\<close>, groups, \<^verbatim>\<open>|\<close> and the
  quantifiers \<^verbatim>\<open>*\<close>, \<^verbatim>\<open>+\<close>, \<^verbatim>\<open>?\<close>, greedy or lazy. A pattern outside this part (a braced
  quantifier, a back reference, a look-ahead) gives \<open>None\<close>, as does a pattern that
  \<^verbatim>\<open>new RegExp\<close> rejects. A backslash cannot stand in a string literal of the logic:
  \<open>bs s\<close> is \<open>s\<close> with a backslash before it.
\<close>

datatype citem = CChar char | CRange char char | CSpace | CNonSpace | CDigit | CNonDigit
  | CWord | CNonWord

datatype regex =
    Chr char
  | Dot
  | Cls bool "citem list"
  | Bol
  | Eol
  | Eps
  | Seq regex regex
  | Alt regex regex
  | Star bool regex
  | Opt bool regex

datatype tok = TAtom regex | TAssert regex | TStar | TPlus | TQuest | TOpen | TClose | TBar

definition bslash :: char where "bslash = CHR 0x5C"

definition classEscape :: "char \<Rightarrow> citem option" where
  "classEscape d =
     (if d = CHR ''s'' then Some CSpace
      else if d = CHR ''S'' then Some CNonSpace
      else if d = CHR ''d'' then Some CDigit
      else if d = CHR ''D'' then Some CNonDigit
      else if d = CHR ''w'' then Some CWord
      else if d = CHR ''W'' then Some CNonWord
      else if d = CHR ''n'' then Some (CChar (CHR 0x0A))
      else if d = CHR ''r'' then Some (CChar (CHR 0x0D))
      else if d = CHR ''t'' then Some (CChar (CHR 0x09))
      else if d = CHR ''v'' then Some (CChar (CHR 0x0B))
      else if d = CHR ''f'' then Some (CChar (CHR 0x0C))
      else if isWordChar d then None
      else Some (CChar d))"

definition atomEscape :: "char \<Rightarrow> regex option" where
  "atomEscape d =
     (case classEscape d of
        None \<Rightarrow> None
      | Some (CChar c) \<Rightarrow> Some (Chr c)
      | Some item \<Rightarrow> Some (Cls False [item]))"

definition classStep :: "string \<Rightarrow> (citem \<times> string) option" where
  "classStep s =
     (case s of
        [] \<Rightarrow> None
      | c # cs \<Rightarrow>
         if c = bslash then
           (case cs of
              [] \<Rightarrow> None
            | d # ds \<Rightarrow>
               (case classEscape d of
                  None \<Rightarrow> None
                | Some item \<Rightarrow>
                    if take 1 ds = ''-'' \<and> take 1 (drop 1 ds) \<noteq> [] \<and> take 1 (drop 1 ds) \<noteq> '']''
                    then None else Some (item, ds)))
         else if take 1 cs = ''-'' \<and> take 1 (drop 1 cs) \<noteq> [] \<and> take 1 (drop 1 cs) \<noteq> '']''
         then (if take 1 (drop 1 cs) = [bslash] then None
               else Some (CRange c (hd (drop 1 cs)), drop 2 cs))
         else Some (CChar c, cs))"

lemma classStep_shorter: "classStep s = Some (item, rest) \<Longrightarrow> length rest < length s"
  unfolding classStep_def
  by (cases s; cases "tl s") (auto split: if_splits option.splits)

function lexClass :: "citem list \<Rightarrow> string \<Rightarrow> (citem list \<times> string) option" where
  "lexClass acc s =
     (if s = [] then None
      else if take 1 s = '']'' then Some (rev acc, drop 1 s)
      else (case classStep s of
              None \<Rightarrow> None
            | Some (item, rest) \<Rightarrow> lexClass (item # acc) rest))"
  by pat_completeness auto
termination
  by (relation "measure (\<lambda>(acc, s). length s)") (auto dest: classStep_shorter)

lemma lexClass_shorter: "lexClass acc s = Some (items, rest) \<Longrightarrow> length rest < length s"
proof (induction acc s rule: lexClass.induct)
  case (1 acc s)
  show ?case
  proof (cases "s = [] \<or> take 1 s = '']''")
    case True
    then show ?thesis using "1.prems" by (cases s) (auto split: if_splits)
  next
    case False
    then obtain item r where st: "classStep s = Some (item, r)"
      using "1.prems" by (cases "classStep s") auto
    then have "lexClass (item # acc) r = Some (items, rest)"
      using False "1.prems" by simp
    then have "length rest < length r" using "1.IH" False st by simp
    then show ?thesis using classStep_shorter [OF st] by simp
  qed
qed

declare lexClass.simps [simp del]

function lexer :: "string \<Rightarrow> tok list option" where
  "lexer [] = Some []"
| "lexer (c # cs) =
     (if c = bslash then
        (case cs of
           [] \<Rightarrow> None
         | d # ds \<Rightarrow>
            (case atomEscape d of
               None \<Rightarrow> None
             | Some a \<Rightarrow> map_option (Cons (TAtom a)) (lexer ds)))
      else if c = CHR ''['' then
        (case lexClass [] (if take 1 cs = ''^'' then drop 1 cs else cs) of
           None \<Rightarrow> None
         | Some (items, rest) \<Rightarrow>
             map_option (Cons (TAtom (Cls (take 1 cs = ''^'') items))) (lexer rest))
      else if c = CHR ''('' then
        (if take 1 cs = ''?''
         then (if take 2 cs = ''?:'' then map_option (Cons TOpen) (lexer (drop 2 cs)) else None)
         else map_option (Cons TOpen) (lexer cs))
      else if c = CHR '')'' then map_option (Cons TClose) (lexer cs)
      else if c = CHR ''|'' then map_option (Cons TBar) (lexer cs)
      else if c = CHR ''*'' then map_option (Cons TStar) (lexer cs)
      else if c = CHR ''+'' then map_option (Cons TPlus) (lexer cs)
      else if c = CHR ''?'' then map_option (Cons TQuest) (lexer cs)
      else if c = CHR ''.'' then map_option (Cons (TAtom Dot)) (lexer cs)
      else if c = CHR ''^'' then map_option (Cons (TAssert Bol)) (lexer cs)
      else if c = CHR ''$'' then map_option (Cons (TAssert Eol)) (lexer cs)
      else if c = CHR ''{'' then None
      else map_option (Cons (TAtom (Chr c))) (lexer cs))"
  by pat_completeness auto
termination
  by (relation "measure length") (auto dest: lexClass_shorter split: if_splits)

declare lexer.simps [simp del]


text \<open>The parser: a stack of open groups, each with its finished alternatives and the
  items of the alternative being read (latest first); an item is quantifiable once.\<close>

definition mkSeq :: "regex list \<Rightarrow> regex" where
  "mkSeq rs = foldr Seq rs Eps"

fun mkAlt :: "regex list \<Rightarrow> regex" where
  "mkAlt [] = Eps"
| "mkAlt [r] = r"
| "mkAlt (r # rs) = Alt r (mkAlt rs)"

type_synonym frame = "regex list \<times> (regex \<times> bool) list"

definition closeFrame :: "frame \<Rightarrow> regex" where
  "closeFrame fr = mkAlt (rev (mkSeq (rev (map fst (snd fr))) # fst fr))"

definition quantify :: "(regex \<Rightarrow> regex) \<Rightarrow> frame \<Rightarrow> frame option" where
  "quantify q fr =
     (case snd fr of
        [] \<Rightarrow> None
      | (a, quantifiable) # items \<Rightarrow>
          if quantifiable then Some (fst fr, (q a, False) # items) else None)"

fun parseToks :: "frame list \<Rightarrow> frame \<Rightarrow> tok list \<Rightarrow> regex option" where
  "parseToks stack fr [] = (if stack = [] then Some (closeFrame fr) else None)"
| "parseToks stack fr (TAtom a # ts) = parseToks stack (fst fr, (a, True) # snd fr) ts"
| "parseToks stack fr (TAssert a # ts) = parseToks stack (fst fr, (a, False) # snd fr) ts"
| "parseToks stack fr (TBar # ts) =
     parseToks stack (mkSeq (rev (map fst (snd fr))) # fst fr, []) ts"
| "parseToks stack fr (TOpen # ts) = parseToks (fr # stack) ([], []) ts"
| "parseToks stack fr (TClose # ts) =
     (case stack of
        [] \<Rightarrow> None
      | outer # stack' \<Rightarrow> parseToks stack' (fst outer, (closeFrame fr, True) # snd outer) ts)"
| "parseToks stack fr (TStar # TQuest # ts) =
     (case quantify (Star False) fr of None \<Rightarrow> None | Some fr' \<Rightarrow> parseToks stack fr' ts)"
| "parseToks stack fr (TStar # ts) =
     (case quantify (Star True) fr of None \<Rightarrow> None | Some fr' \<Rightarrow> parseToks stack fr' ts)"
| "parseToks stack fr (TPlus # TQuest # ts) =
     (case quantify (\<lambda>a. Seq a (Star False a)) fr of
        None \<Rightarrow> None | Some fr' \<Rightarrow> parseToks stack fr' ts)"
| "parseToks stack fr (TPlus # ts) =
     (case quantify (\<lambda>a. Seq a (Star True a)) fr of
        None \<Rightarrow> None | Some fr' \<Rightarrow> parseToks stack fr' ts)"
| "parseToks stack fr (TQuest # TQuest # ts) =
     (case quantify (Opt False) fr of None \<Rightarrow> None | Some fr' \<Rightarrow> parseToks stack fr' ts)"
| "parseToks stack fr (TQuest # ts) =
     (case quantify (Opt True) fr of None \<Rightarrow> None | Some fr' \<Rightarrow> parseToks stack fr' ts)"

definition parseRegex :: "string \<Rightarrow> regex option" where
  "parseRegex pattern =
     (case lexer pattern of None \<Rightarrow> None | Some ts \<Rightarrow> parseToks [] ([], []) ts)"

section \<open>Matching\<close>

text \<open>
  \<open>ends ic r t i\<close> lists the positions where a match of \<open>r\<close> that starts at position
  \<open>i\<close> of \<open>t\<close> can end, in the order in which the backtracking matcher of ECMAScript
  tries them (\<open>ic\<close> is the flag \<^verbatim>\<open>i\<close>): a greedy quantifier tries one more iteration
  first, a lazy one tries to stop first, and an iteration that matches the empty string
  is not repeated. The first position of the list is the end of the match that
  \<^verbatim>\<open>exec\<close> reports at \<open>i\<close>; \<open>searchFrom\<close> moves \<open>i\<close> forward until there is one.
\<close>

definition canonicalize :: "bool \<Rightarrow> char \<Rightarrow> char" where
  "canonicalize ignoreCase c = (if ignoreCase then toUpperCase c else c)"

fun itemMem :: "char \<Rightarrow> citem \<Rightarrow> bool" where
  "itemMem ch (CChar c) = (ch = c)"
| "itemMem ch (CRange a b) = ((of_char a :: nat) \<le> of_char ch \<and> (of_char ch :: nat) \<le> of_char b)"
| "itemMem ch CSpace = isWhiteSpace ch"
| "itemMem ch CNonSpace = (\<not> isWhiteSpace ch)"
| "itemMem ch CDigit = isDigit ch"
| "itemMem ch CNonDigit = (\<not> isDigit ch)"
| "itemMem ch CWord = isWordChar ch"
| "itemMem ch CNonWord = (\<not> isWordChar ch)"

definition clsMem :: "bool \<Rightarrow> citem list \<Rightarrow> char \<Rightarrow> bool" where
  "clsMem ignoreCase items ch =
     (list_ex (itemMem ch) items
      \<or> (ignoreCase \<and> (list_ex (itemMem (toUpperCase ch)) items
                        \<or> list_ex (itemMem (toLowerCase ch)) items)))"

function ends :: "bool \<Rightarrow> regex \<Rightarrow> string \<Rightarrow> nat \<Rightarrow> nat list" where
  "ends ic (Chr c) t i =
     (if i < length t \<and> canonicalize ic (t ! i) = canonicalize ic c then [Suc i] else [])"
| "ends ic Dot t i = (if i < length t \<and> \<not> isLineTerminator (t ! i) then [Suc i] else [])"
| "ends ic (Cls neg items) t i =
     (if i < length t \<and> (clsMem ic items (t ! i) \<noteq> neg) then [Suc i] else [])"
| "ends ic Bol t i = (if i = 0 then [i] else [])"
| "ends ic Eol t i = (if i = length t then [i] else [])"
| "ends ic Eps t i = [i]"
| "ends ic (Seq a b) t i = concat (map (ends ic b t) (ends ic a t i))"
| "ends ic (Alt a b) t i = ends ic a t i @ ends ic b t i"
| "ends ic (Star greedy a) t i =
     (let more = concat (map (ends ic (Star greedy a) t)
                   (filter (\<lambda>j. i < j \<and> j \<le> length t) (ends ic a t i)))
      in if greedy then more @ [i] else i # more)"
| "ends ic (Opt greedy a) t i =
     (let one = filter (\<lambda>j. i < j) (ends ic a t i)
      in if greedy then one @ [i] else i # one)"
  by pat_completeness auto
termination
  by (relation "inv_image (less_than <*lex*> less_than) (\<lambda>(ic, r, t, i). (size r, length t - i))")
     auto

declare ends.simps(9) [simp del]

function searchFrom :: "bool \<Rightarrow> regex \<Rightarrow> string \<Rightarrow> nat \<Rightarrow> (nat \<times> nat) option" where
  "searchFrom ic r t i =
     (if length t < i then None
      else (case ends ic r t i of
              [] \<Rightarrow> searchFrom ic r t (Suc i)
            | j # js \<Rightarrow> Some (i, j)))"
  by pat_completeness auto
termination
  by (relation "measure (\<lambda>(ic, r, t, i). Suc (length t) - i)") auto

declare searchFrom.simps [simp del]

definition regexTest :: "bool \<Rightarrow> regex \<Rightarrow> string \<Rightarrow> bool" where
  "regexTest ic r t = (searchFrom ic r t 0 \<noteq> None)"


lemma ends_bounds:
  "j \<in> set (ends ic r t i) \<Longrightarrow> i \<le> j \<and> (i \<le> length t \<longrightarrow> j \<le> length t)"
proof (induction ic r t i arbitrary: j rule: ends.induct)
  case (7 ic a b t i)
  then obtain k where k: "k \<in> set (ends ic a t i)" and j: "j \<in> set (ends ic b t k)"
    by auto
  from "7.IH"(1) [OF k] "7.IH"(2) [OF k j] show ?case by auto
next
  case (9 ic greedy a t i)
  have "j = i \<or> (\<exists>k. k \<in> set (ends ic a t i) \<and> i < k \<and> k \<le> length t
            \<and> j \<in> set (ends ic (Star greedy a) t k))"
    using "9.prems" by (subst (asm) ends.simps) (auto simp: Let_def split: if_splits)
  then show ?case
  proof
    assume "j = i" then show ?thesis by simp
  next
    assume "\<exists>k. k \<in> set (ends ic a t i) \<and> i < k \<and> k \<le> length t
            \<and> j \<in> set (ends ic (Star greedy a) t k)"
    then obtain k where k: "k \<in> set (ends ic a t i)" "i < k" "k \<le> length t"
      and j: "j \<in> set (ends ic (Star greedy a) t k)" by blast
    have "k \<in> set (filter (\<lambda>j. i < j \<and> j \<le> length t) (ends ic a t i))" using k by simp
    from "9.IH"(2) [OF this j] k show ?thesis by auto
  qed
qed (auto simp: Let_def split: if_splits)

lemma searchFrom_bounds:
  "searchFrom ic r t i = Some (s, e) \<Longrightarrow> i \<le> s \<and> s \<le> e \<and> e \<le> length t"
proof (induction ic r t i rule: searchFrom.induct)
  case (1 ic r t i)
  show ?case
  proof (cases "ends ic r t i")
    case Nil
    then have "searchFrom ic r t (Suc i) = Some (s, e)" and "\<not> length t < i"
      using "1.prems" by (subst (asm) searchFrom.simps, simp split: if_splits)+
    then show ?thesis using "1.IH" Nil by fastforce
  next
    case (Cons j js)
    then have "s = i" "e = j" "\<not> length t < i"
      using "1.prems" by (subst (asm) searchFrom.simps, simp split: if_splits)+
    moreover have "j \<in> set (ends ic r t i)" using Cons by simp
    ultimately show ?thesis using ends_bounds [of j ic r t i] by auto
  qed
qed

text \<open>The matches a global regular expression finds from \<open>lastIndex = i\<close> on: after an
  empty match \<open>lastIndex\<close> is advanced by one.\<close>

function allMatches :: "bool \<Rightarrow> regex \<Rightarrow> string \<Rightarrow> nat \<Rightarrow> (nat \<times> nat) list" where
  "allMatches ic r t i =
     (case searchFrom ic r t i of
        None \<Rightarrow> []
      | Some (s, e) \<Rightarrow> (s, e) # allMatches ic r t (if e = s then Suc e else e))"
  by pat_completeness auto
termination
  by (relation "measure (\<lambda>(ic, r, t, i). Suc (length t) - i)")
     (auto dest!: searchFrom_bounds)

declare allMatches.simps [simp del]

text \<open>\<^verbatim>\<open>String.prototype.match\<close> with a global regular expression: the matched substrings,
  or \<^verbatim>\<open>null\<close> when there is none.\<close>

definition matchG :: "bool \<Rightarrow> regex \<Rightarrow> string \<Rightarrow> string list option" where
  "matchG ic r t =
     (case allMatches ic r t 0 of
        [] \<Rightarrow> None
      | ms \<Rightarrow> Some (map (\<lambda>(s, e). substring t s e) ms))"

text \<open>\<^verbatim>\<open>String.prototype.replace\<close> with a global regular expression and a replacer function.
  The replacer is called once per match, in order, and may update a state (the counters
  the callbacks of the source increment).\<close>

fun rebuild :: "(string \<Rightarrow> 's \<Rightarrow> string \<times> 's) \<Rightarrow> string \<Rightarrow> nat \<Rightarrow> (nat \<times> nat) list \<Rightarrow> 's
    \<Rightarrow> string \<times> 's" where
  "rebuild f t pos [] st = (drop pos t, st)"
| "rebuild f t pos ((s, e) # ms) st =
     (let (rep, st1) = f (substring t s e) st;
          (rest, st2) = rebuild f t e ms st1
      in (substring t pos s @ rep @ rest, st2))"

definition replaceG :: "bool \<Rightarrow> regex \<Rightarrow> (string \<Rightarrow> 's \<Rightarrow> string \<times> 's) \<Rightarrow> string \<Rightarrow> 's
    \<Rightarrow> string \<times> 's" where
  "replaceG ic r f t st = rebuild f t 0 (allMatches ic r t 0) st"

definition replaceAllWith :: "regex \<Rightarrow> (string \<Rightarrow> string) \<Rightarrow> string \<Rightarrow> string" where
  "replaceAllWith r f t = fst (replaceG False r (\<lambda>m u. (f m, u)) t ())"

definition RegExp :: "string \<Rightarrow> regex" where
  "RegExp pattern = the (parseRegex pattern)"

definition bs :: "string \<Rightarrow> string" where
  "bs s = bslash # s"

text \<open>\<^verbatim>\<open>string.replace(/[.*+?^${}()|[\]\\]/g, '\\$&')\<close>\<close>

definition escapeRegex :: "string \<Rightarrow> string" where
  "escapeRegex string =
     replaceAllWith (RegExp (''[.*+?^${}()|['' @ bs '']'' @ bs (bs '']''))) (\<lambda>m. bslash # m) string"

section \<open>Facts about the matcher and about escaped patterns\<close>

definition metaChars :: "char list" where
  "metaChars = ''.*+?^${}()|[]'' @ [bslash]"

definition escapeChar :: "char \<Rightarrow> string" where
  "escapeChar c = (if c \<in> set metaChars then [bslash, c] else [c])"

lemma escape_class:
  "parseRegex (''[.*+?^${}()|['' @ bs '']'' @ bs (bs '']'')) = Some (mkSeq [Cls False (map CChar metaChars)])"
  by code_simp

lemma clsMem_metaChars: "clsMem False (map CChar metaChars) c = (c \<in> set metaChars)"
  by (auto simp: clsMem_def list_ex_iff)

lemma startsAt_Nil [simp]: "startsAt [] t i"
  by (simp add: startsAt_def)

lemma startsAt_Cons:
  "startsAt (c # p) t i = (i < length t \<and> t ! i = c \<and> startsAt p t (Suc i))"
proof (cases "i < length t")
  case True
  then have "drop i t = t ! i # drop (Suc i) t" by (simp add: Cons_nth_drop_Suc)
  then show ?thesis using True by (auto simp: startsAt_def)
next
  case False
  then show ?thesis by (simp add: startsAt_def)
qed

lemma ends_literal:
  "ends False (mkSeq (map Chr p)) t i = (if startsAt p t i then [i + length p] else [])"
proof (induction p arbitrary: i)
  case Nil
  have "j \<in> set [] \<Longrightarrow> False" for j :: nat by simp
  show ?case by (simp add: mkSeq_def)
next
  case (Cons c p)
  have "mkSeq (map Chr (c # p)) = Seq (Chr c) (mkSeq (map Chr p))" by (simp add: mkSeq_def)
  then show ?case using Cons.IH by (simp add: startsAt_Cons canonicalize_def)
qed


lemma concat_singletons: "concat (map (\<lambda>j. [j]) xs) = xs"
  by (induction xs) simp_all

lemma ends_Seq_Eps [simp]: "ends ic (Seq a Eps) t i = ends ic a t i"
proof -
  have "ends ic Eps t = (\<lambda>j. [j])" by (rule ext) simp
  then show ?thesis by (simp add: concat_singletons)
qed

lemma searchFrom_None_iff:
  "searchFrom ic r t i = None \<longleftrightarrow> (\<forall>p. i \<le> p \<and> p \<le> length t \<longrightarrow> ends ic r t p = [])"
proof (induction ic r t i rule: searchFrom.induct)
  case (1 ic r t i)
  show ?case
  proof (cases "length t < i")
    case True
    then show ?thesis by (subst searchFrom.simps) auto
  next
    case False
    show ?thesis
    proof (cases "ends ic r t i")
      case Nil
      have "searchFrom ic r t i = searchFrom ic r t (Suc i)"
        using False Nil by (subst searchFrom.simps) simp
      moreover have "(\<forall>p. i \<le> p \<and> p \<le> length t \<longrightarrow> ends ic r t p = [])
          \<longleftrightarrow> (\<forall>p. Suc i \<le> p \<and> p \<le> length t \<longrightarrow> ends ic r t p = [])"
        using Nil by (metis Suc_leI le_neq_implies_less le_SucE Suc_leD)
      ultimately show ?thesis using "1.IH" [OF False Nil] by simp
    next
      case (Cons j js)
      then show ?thesis using False by (subst searchFrom.simps) auto
    qed
  qed
qed

lemma searchFrom_skip:
  "i \<le> length t \<Longrightarrow> ends ic r t i = [] \<Longrightarrow> searchFrom ic r t i = searchFrom ic r t (Suc i)"
  by (subst searchFrom.simps) simp

lemma searchFrom_hit:
  "i \<le> length t \<Longrightarrow> ends ic r t i = j # js \<Longrightarrow> searchFrom ic r t i = Some (i, j)"
  by (subst searchFrom.simps) simp

lemma searchFrom_past: "length t < i \<Longrightarrow> searchFrom ic r t i = None"
  by (subst searchFrom.simps) simp

lemma allMatches_skip:
  "i \<le> length t \<Longrightarrow> ends ic r t i = [] \<Longrightarrow> allMatches ic r t i = allMatches ic r t (Suc i)"
  by (subst allMatches.simps, subst (2) allMatches.simps) (simp add: searchFrom_skip)

lemma allMatches_hit:
  "i \<le> length t \<Longrightarrow> ends ic r t i = j # js \<Longrightarrow>
     allMatches ic r t i = (i, j) # allMatches ic r t (if j = i then Suc j else j)"
  by (subst allMatches.simps) (simp add: searchFrom_hit)

lemma allMatches_past: "length t < i \<Longrightarrow> allMatches ic r t i = []"
  by (subst allMatches.simps) (simp add: searchFrom_past)

lemma allMatches_starts:
  "(s, e) \<in> set (allMatches ic r t i) \<Longrightarrow> i \<le> s \<and> s \<le> e \<and> e \<le> length t"
proof (induction ic r t i rule: allMatches.induct)
  case (1 ic r t i)
  show ?case
  proof (cases "searchFrom ic r t i")
    case None
    then show ?thesis using "1.prems" by (subst (asm) allMatches.simps) simp
  next
    case (Some a)
    obtain s' e' where a: "a = (s', e')" by (cases a)
    have b: "i \<le> s' \<and> s' \<le> e' \<and> e' \<le> length t"
      using searchFrom_bounds Some a by blast
    have "(s, e) = (s', e') \<or> (s, e) \<in> set (allMatches ic r t (if e' = s' then Suc e' else e'))"
      using "1.prems" Some a by (subst (asm) allMatches.simps) auto
    then show ?thesis
    proof
      assume "(s, e) = (s', e')" then show ?thesis using b by simp
    next
      assume "(s, e) \<in> set (allMatches ic r t (if e' = s' then Suc e' else e'))"
      from "1.IH" [OF Some a [symmetric] this] b show ?thesis by (auto split: if_splits)
    qed
  qed
qed

text \<open>Moving the start of the copied text over one character no match begins at.\<close>

lemma rebuild_shift:
  assumes "pos < length t" and "\<forall>(s, e) \<in> set ms. pos < s \<and> s \<le> length t"
  shows "rebuild f t pos ms st =
           (t ! pos # fst (rebuild f t (Suc pos) ms st), snd (rebuild f t (Suc pos) ms st))"
proof (cases ms)
  case Nil
  then show ?thesis using assms by (simp add: Cons_nth_drop_Suc)
next
  case (Cons m ms')
  obtain s e where m: "m = (s, e)" by (cases m)
  have "pos < s" using assms Cons m by auto
  then have "s - pos = Suc (s - Suc pos)" by simp
  moreover have "drop pos t = t ! pos # drop (Suc pos) t"
    using assms(1) by (simp add: Cons_nth_drop_Suc)
  ultimately have "substring t pos s = t ! pos # substring t (Suc pos) s"
    by (simp add: substring_def)
  then show ?thesis using Cons m by (simp add: Let_def split: prod.splits)
qed

lemma replace_class_from:
  assumes "pos \<le> length t"
  shows "rebuild (\<lambda>m u. (f m, u)) t pos (allMatches False (Cls False items) t pos) ()
           = (concat (map (\<lambda>c. if clsMem False items c then f [c] else [c]) (drop pos t)), ())"
  using assms
proof (induction "length t - pos" arbitrary: pos)
  case 0
  then have p: "pos = length t" by simp
  have "allMatches False (Cls False items) t pos = allMatches False (Cls False items) t (Suc pos)"
    by (rule allMatches_skip) (simp_all add: p)
  then show ?case by (simp add: p allMatches_past)
next
  case (Suc n)
  then have lt: "pos < length t" by simp
  have dr: "drop pos t = t ! pos # drop (Suc pos) t" using lt by (simp add: Cons_nth_drop_Suc)
  have IH: "rebuild (\<lambda>m u. (f m, u)) t (Suc pos) (allMatches False (Cls False items) t (Suc pos)) ()
           = (concat (map (\<lambda>c. if clsMem False items c then f [c] else [c]) (drop (Suc pos) t)), ())"
    using Suc.hyps(1) [of "Suc pos"] Suc.hyps(2) lt by simp
  show ?case
  proof (cases "clsMem False items (t ! pos)")
    case True
    then have "ends False (Cls False items) t pos = [Suc pos]" using lt by simp
    then have "allMatches False (Cls False items) t pos
        = (pos, Suc pos) # allMatches False (Cls False items) t (Suc pos)"
      using allMatches_hit [of pos t False "Cls False items" "Suc pos" "[]"] lt by simp
    moreover have "substring t pos (Suc pos) = [t ! pos]" by (simp add: substring_def dr)
    ultimately show ?thesis using IH True by (simp add: dr substring_def)
  next
    case False
    then have "ends False (Cls False items) t pos = []" using lt by simp
    then have am: "allMatches False (Cls False items) t pos
        = allMatches False (Cls False items) t (Suc pos)"
      using allMatches_skip [of pos t False "Cls False items"] lt by simp
    have "\<forall>(s, e) \<in> set (allMatches False (Cls False items) t (Suc pos)). pos < s \<and> s \<le> length t"
    proof clarify
      fix s e assume "(s, e) \<in> set (allMatches False (Cls False items) t (Suc pos))"
      from allMatches_starts [OF this] show "pos < s \<and> s \<le> length t" by simp
    qed
    from rebuild_shift [OF lt this, of "\<lambda>m u. (f m, u)" "()"]
    show ?thesis using IH False by (simp add: am dr)
  qed
qed

lemma RegExp_escape_class:
  "RegExp (''[.*+?^${}()|['' @ bs '']'' @ bs (bs '']'')) = mkSeq [Cls False (map CChar metaChars)]"
  by (simp only: RegExp_def escape_class option.sel)

lemma allMatches_Seq_Eps: "allMatches ic (Seq a Eps) t i = allMatches ic a t i"
proof (induction ic a t i rule: allMatches.induct)
  case (1 ic r t i)
  have s: "searchFrom ic (Seq r Eps) t j = searchFrom ic r t j" for j
    by (induction ic r t j rule: searchFrom.induct)
       (subst searchFrom.simps, subst (2) searchFrom.simps, simp split: list.splits)
  show ?case
    using "1.IH"
    by (subst allMatches.simps, subst (2) allMatches.simps)
       (auto simp: s split: option.splits)
qed

lemma escapeRegex_map: "escapeRegex s = concat (map escapeChar s)"
proof -
  have "escapeChar = (\<lambda>c. if clsMem False (map CChar metaChars) c then bslash # [c] else [c])"
    by (rule ext) (simp add: escapeChar_def clsMem_metaChars)
  moreover have "escapeRegex s = fst (rebuild (\<lambda>m u. (bslash # m, u)) s 0
      (allMatches False (mkSeq [Cls False (map CChar metaChars)]) s 0) ())"
    unfolding escapeRegex_def RegExp_escape_class replaceAllWith_def replaceG_def ..
  ultimately show ?thesis
    using replace_class_from [of 0 s "\<lambda>m. bslash # m" "map CChar metaChars"]
    by (simp add: mkSeq_def allMatches_Seq_Eps)
qed

definition noMeta :: "string \<Rightarrow> bool" where
  "noMeta p = list_all (\<lambda>c. c \<notin> set metaChars) p"

lemma lexer_plain:
  "c \<notin> set metaChars \<Longrightarrow> lexer (c # cs) = map_option (Cons (TAtom (Chr c))) (lexer cs)"
  by (subst lexer.simps) (simp add: metaChars_def)

lemma atomEscape_metaChars: "list_all (\<lambda>c. atomEscape c = Some (Chr c)) metaChars"
  by code_simp

lemma atomEscape_meta: "c \<in> set metaChars \<Longrightarrow> atomEscape c = Some (Chr c)"
  using atomEscape_metaChars by (simp add: list_all_iff)

lemma lexer_escaped:
  "c \<in> set metaChars \<Longrightarrow>
     lexer (bslash # c # cs) = map_option (Cons (TAtom (Chr c))) (lexer cs)"
  by (subst lexer.simps) (simp add: atomEscape_meta)

lemma lexer_escapeChars:
  "lexer (concat (map escapeChar s) @ rest)
     = map_option ((@) (map (\<lambda>c. TAtom (Chr c)) s)) (lexer rest)"
proof (induction s)
  case Nil
  then show ?case by (simp add: option.map_ident)
next
  case (Cons c s)
  show ?case
  proof (cases "c \<in> set metaChars")
    case True
    then show ?thesis
      using Cons.IH by (simp add: escapeChar_def lexer_escaped option.map_comp comp_def)
  next
    case False
    then show ?thesis
      using Cons.IH by (simp add: escapeChar_def lexer_plain option.map_comp comp_def)
  qed
qed

lemma lexer_Nil [simp]: "lexer [] = Some []"
  by (subst lexer.simps) simp

lemma parseToks_atoms:
  "parseToks stack fr (map (\<lambda>c. TAtom (Chr c)) s @ ts)
     = parseToks stack (fst fr, rev (map (\<lambda>c. (Chr c, True)) s) @ snd fr) ts"
  by (induction s arbitrary: fr) simp_all

lemma escapeChars_noMeta: "noMeta p \<Longrightarrow> concat (map escapeChar p) = p"
  by (induction p) (simp_all add: noMeta_def escapeChar_def)

lemma parseRegex_escaped:
  assumes "noMeta pre" and "noMeta post"
  shows "parseRegex (pre @ escapeRegex s @ post) = Some (mkSeq (map Chr (pre @ s @ post)))"
proof -
  have "pre @ escapeRegex s @ post = concat (map escapeChar (pre @ s @ post)) @ []"
    using assms by (simp add: escapeRegex_map escapeChars_noMeta)
  then have "lexer (pre @ escapeRegex s @ post) = Some (map (\<lambda>c. TAtom (Chr c)) (pre @ s @ post))"
    using lexer_escapeChars [of "pre @ s @ post" "[]"] by simp
  moreover have "parseToks [] ([], []) (map (\<lambda>c. TAtom (Chr c)) (pre @ s @ post) @ [])
      = Some (mkSeq (map Chr (pre @ s @ post)))"
    unfolding parseToks_atoms by (simp add: closeFrame_def rev_map comp_def)
  ultimately show ?thesis by (simp add: parseRegex_def)
qed

lemma includes_iff: "includes' t p \<longleftrightarrow> (\<exists>i. i \<le> length t \<and> startsAt p t i)"
proof (induction t)
  case Nil
  then show ?case by (auto simp: startsAt_def)
next
  case (Cons c t)
  have "(\<exists>i. i \<le> length (c # t) \<and> startsAt p (c # t) i)
      \<longleftrightarrow> startsAt p (c # t) 0 \<or> (\<exists>i. i \<le> length t \<and> startsAt p t i)"
  proof
    assume "\<exists>i. i \<le> length (c # t) \<and> startsAt p (c # t) i"
    then obtain i where i: "i \<le> length (c # t)" "startsAt p (c # t) i" by blast
    show "startsAt p (c # t) 0 \<or> (\<exists>i. i \<le> length t \<and> startsAt p t i)"
    proof (cases i)
      case 0
      then show ?thesis using i by simp
    next
      case (Suc k)
      then have "k \<le> length t \<and> startsAt p t k" using i by (simp add: startsAt_def)
      then show ?thesis by blast
    qed
  next
    assume "startsAt p (c # t) 0 \<or> (\<exists>i. i \<le> length t \<and> startsAt p t i)"
    then show "\<exists>i. i \<le> length (c # t) \<and> startsAt p (c # t) i"
    proof
      assume "startsAt p (c # t) 0" then show ?thesis by blast
    next
      assume "\<exists>i. i \<le> length t \<and> startsAt p t i"
      then obtain i where "i \<le> length t" "startsAt p t i" by blast
      then have "Suc i \<le> length (c # t) \<and> startsAt p (c # t) (Suc i)" by (simp add: startsAt_def)
      then show ?thesis by blast
    qed
  qed
  then show ?case using Cons.IH by (simp add: startsAt_def)
qed

lemma regexTest_iff: "regexTest ic r t \<longleftrightarrow> (\<exists>i. i \<le> length t \<and> ends ic r t i \<noteq> [])"
  by (auto simp: regexTest_def searchFrom_None_iff)

lemma regexTest_literal: "regexTest False (mkSeq (map Chr p)) t = includes' t p"
proof -
  have "(\<exists>i. i \<le> length t \<and> ends False (mkSeq (map Chr p)) t i \<noteq> [])
      \<longleftrightarrow> (\<exists>i. i \<le> length t \<and> startsAt p t i)"
    by (auto simp: ends_literal)
  then show ?thesis by (simp only: regexTest_iff includes_iff)
qed

section \<open>Security utilities (sanitizeApiName, escapeRegex)\<close>

text \<open>
  The argument of \<^verbatim>\<open>sanitizeApiName\<close> is declared a string, and the function tests
  \<^verbatim>\<open>typeof name !== 'string'\<close> all the same: \<open>JNotString\<close> stands for a value of
  another type.
\<close>

datatype jsval = JStr string | JNotString

definition validPattern :: regex where
  "validPattern = RegExp ''^[a-zA-Z][a-zA-Z0-9_]*(__[a-zA-Z]+)?$''"

definition sanitizeApiName :: "jsval \<Rightarrow> string option" where
  "sanitizeApiName name =
     (case name of
        JNotString \<Rightarrow> None
      | JStr s \<Rightarrow>
          if s = [] then None
          else
            let trimmed = trim s in
            if length trimmed = 0 then None
            else if \<not> regexTest False validPattern trimmed then None
            else if length trimmed > 80 then None
            else Some trimmed)"

subsection \<open>The shape of an accepted name\<close>

definition isLetter :: "char \<Rightarrow> bool" where
  "isLetter c = (isUpper c \<or> isLower c)"

definition apiNameShape :: "string \<Rightarrow> bool" where
  "apiNameShape s = (case s of [] \<Rightarrow> False | c # cs \<Rightarrow> isLetter c \<and> list_all isWordChar cs)"

definition letterCls :: regex where
  "letterCls = Cls False [CRange CHR ''a'' CHR ''z'', CRange CHR ''A'' CHR ''Z'']"

definition wordCls :: regex where
  "wordCls = Cls False [CRange CHR ''a'' CHR ''z'', CRange CHR ''A'' CHR ''Z'',
     CRange CHR ''0'' CHR ''9'', CChar CHR ''_'']"

definition suffixGroup :: regex where
  "suffixGroup = Seq (Chr CHR ''_'') (Seq (Chr CHR ''_'')
     (Seq (Seq letterCls (Star True letterCls)) Eps))"

lemma validPattern_parse:
  "parseRegex ''^[a-zA-Z][a-zA-Z0-9_]*(__[a-zA-Z]+)?$''
     = Some (Seq Bol (Seq letterCls (Seq (Star True wordCls) (Seq (Opt True suffixGroup) (Seq Eol Eps)))))"
  by code_simp

lemma validPattern_eq:
  "validPattern = Seq Bol (Seq letterCls (Seq (Star True wordCls) (Seq (Opt True suffixGroup) (Seq Eol Eps))))"
  by (simp only: validPattern_def RegExp_def validPattern_parse option.sel)

lemma ends_letterCls:
  "ends False letterCls t i = (if i < length t \<and> isLetter (t ! i) then [Suc i] else [])"
  by (auto simp: letterCls_def clsMem_def isLetter_def isUpper_def isLower_def)

lemma ends_wordCls:
  "ends False wordCls t i = (if i < length t \<and> isWordChar (t ! i) then [Suc i] else [])"
  by (auto simp: wordCls_def clsMem_def isWordChar_def isUpper_def isLower_def isDigit_def)

text \<open>A quantified one-character matcher reaches exactly the ends of runs of that character.\<close>

lemma set_ends_Star_single:
  assumes single: "\<And>k. ends ic a t k = (if k < length t \<and> P (t ! k) then [Suc k] else [])"
    and "i \<le> length t"
  shows "set (ends ic (Star g a) t i)
           = {j. i \<le> j \<and> j \<le> length t \<and> (\<forall>k. i \<le> k \<and> k < j \<longrightarrow> P (t ! k))}"
  using assms(2)
proof (induction "length t - i" arbitrary: i)
  case 0
  then have "i = length t" by simp
  then show ?case by (subst ends.simps) (auto simp: single Let_def)
next
  case (Suc n)
  then have lt: "i < length t" by simp
  have IH: "set (ends ic (Star g a) t (Suc i))
      = {j. Suc i \<le> j \<and> j \<le> length t \<and> (\<forall>k. Suc i \<le> k \<and> k < j \<longrightarrow> P (t ! k))}"
    using Suc.hyps(1) [of "Suc i"] Suc.hyps(2) lt by simp
  show ?case
  proof (cases "P (t ! i)")
    case True
    have "set (ends ic (Star g a) t i) = insert i (set (ends ic (Star g a) t (Suc i)))"
      using True lt by (subst ends.simps) (auto simp: single Let_def)
    also have "\<dots> = {j. i \<le> j \<and> j \<le> length t \<and> (\<forall>k. i \<le> k \<and> k < j \<longrightarrow> P (t ! k))}"
    proof -
      have "\<And>j. Suc i \<le> j \<Longrightarrow> (\<forall>k. Suc i \<le> k \<and> k < j \<longrightarrow> P (t ! k))
          \<longleftrightarrow> (\<forall>k. i \<le> k \<and> k < j \<longrightarrow> P (t ! k))"
        using True by (metis Suc_leI le_neq_implies_less Suc_leD)
      then show ?thesis using lt unfolding IH
        by (auto simp: Suc_le_eq)
    qed
    finally show ?thesis .
  next
    case False
    have "set (ends ic (Star g a) t i) = {i}"
      using False lt by (subst ends.simps) (auto simp: single Let_def)
    also have "\<dots> = {j. i \<le> j \<and> j \<le> length t \<and> (\<forall>k. i \<le> k \<and> k < j \<longrightarrow> P (t ! k))}"
      using False lt by (auto simp: le_less) 
    finally show ?thesis .
  qed
qed


lemma nonempty_set: "xs \<noteq> [] \<longleftrightarrow> set xs \<noteq> {}"
  by simp

lemma ends_suffixGroup_word:
  assumes "j \<in> set (ends False suffixGroup t i)" and "i \<le> k" and "k < j"
  shows "isWordChar (t ! k)"
proof -
  have st: "set (ends False (Star True letterCls) t m)
      = {j. m \<le> j \<and> j \<le> length t \<and> (\<forall>k. m \<le> k \<and> k < j \<longrightarrow> isLetter (t ! k))}"
    if "m \<le> length t" for m
    using set_ends_Star_single [of False letterCls t isLetter m True] that
    by (simp add: ends_letterCls)
  from assms(1) have a: "i < length t" "t ! i = CHR ''_''" "Suc i < length t" "t ! Suc i = CHR ''_''"
    "Suc (Suc i) < length t" "isLetter (t ! Suc (Suc i))"
    "j \<in> set (ends False (Star True letterCls) t (Suc (Suc (Suc i))))"
    by (auto simp: suffixGroup_def ends_letterCls canonicalize_def split: if_splits)
  then have "\<forall>k. Suc (Suc (Suc i)) \<le> k \<and> k < j \<longrightarrow> isLetter (t ! k)"
    using st [of "Suc (Suc (Suc i))"] by auto
  moreover have "k = i \<or> k = Suc i \<or> k = Suc (Suc i) \<or> Suc (Suc (Suc i)) \<le> k"
    using assms(2) by linarith
  ultimately show ?thesis
    using a assms(3) by (auto simp: isWordChar_def isLetter_def)
qed

lemma shape_nth:
  "apiNameShape t \<longleftrightarrow> 0 < length t \<and> isLetter (t ! 0)
     \<and> (\<forall>k. 1 \<le> k \<and> k < length t \<longrightarrow> isWordChar (t ! k))"
proof (cases t)
  case Nil
  then show ?thesis by (simp add: apiNameShape_def)
next
  case (Cons c cs)
  have "list_all isWordChar cs \<longleftrightarrow> (\<forall>k. 1 \<le> k \<and> k < length (c # cs) \<longrightarrow> isWordChar ((c # cs) ! k))"
  proof
    assume "list_all isWordChar cs"
    then show "\<forall>k. 1 \<le> k \<and> k < length (c # cs) \<longrightarrow> isWordChar ((c # cs) ! k)"
      by (auto simp: list_all_length nth_Cons split: nat.splits)
  next
    assume h: "\<forall>k. 1 \<le> k \<and> k < length (c # cs) \<longrightarrow> isWordChar ((c # cs) ! k)"
    show "list_all isWordChar cs"
      unfolding list_all_length
    proof (intro allI impI)
      fix n assume "n < length cs"
      then show "isWordChar (cs ! n)" using h [rule_format, of "Suc n"] by simp
    qed
  qed
  then show ?thesis using Cons by (simp add: apiNameShape_def)
qed

lemma validPattern_shape: "regexTest False validPattern t = apiNameShape t"
proof -
  let ?rest = "Seq (Star True wordCls) (Seq (Opt True suffixGroup) (Seq Eol Eps))"
  have st: "set (ends False (Star True wordCls) t m)
      = {j. m \<le> j \<and> j \<le> length t \<and> (\<forall>k. m \<le> k \<and> k < j \<longrightarrow> isWordChar (t ! k))}"
    if "m \<le> length t" for m
    using set_ends_Star_single [of False wordCls t isWordChar m True] that
    by (simp add: ends_wordCls)
  have bol: "ends False validPattern t i = [] " if "i \<noteq> 0" for i
    using that by (simp add: validPattern_eq)
  have zero: "set (ends False validPattern t 0)
      = (if 0 < length t \<and> isLetter (t ! 0) then set (ends False ?rest t 1) else {})"
    by (simp add: validPattern_eq ends_letterCls)
  have rest: "set (ends False ?rest t 1) \<noteq> {}
      \<longleftrightarrow> (\<forall>k. 1 \<le> k \<and> k < length t \<longrightarrow> isWordChar (t ! k))" if "0 < length t"
  proof
    assume "set (ends False ?rest t 1) \<noteq> {}"
    then obtain j2 j3 where j2: "j2 \<in> set (ends False (Star True wordCls) t 1)"
      and j3: "j3 \<in> set (ends False (Opt True suffixGroup) t j2)" and e: "j3 = length t"
      by (auto split: if_splits)
    have w: "1 \<le> j2" "j2 \<le> length t" "\<forall>k. 1 \<le> k \<and> k < j2 \<longrightarrow> isWordChar (t ! k)"
      using j2 st [of 1] that by auto
    have "j3 = j2 \<or> j3 \<in> set (ends False suffixGroup t j2)" using j3 by (auto simp: Let_def)
    then have "\<forall>k. j2 \<le> k \<and> k < j3 \<longrightarrow> isWordChar (t ! k)"
      using ends_suffixGroup_word [of j3 t j2] by auto
    then show "\<forall>k. 1 \<le> k \<and> k < length t \<longrightarrow> isWordChar (t ! k)"
      using w e by (metis not_le_imp_less)
  next
    assume h: "\<forall>k. 1 \<le> k \<and> k < length t \<longrightarrow> isWordChar (t ! k)"
    have "Suc 0 \<le> length t" using that by (cases t) simp_all
    then have "length t \<in> set (ends False (Star True wordCls) t 1)"
      using st [of 1] h by auto
    moreover have "length t \<in> set (ends False (Opt True suffixGroup) t (length t))"
      by (simp add: Let_def)
    ultimately have "length t \<in> set (ends False ?rest t 1)" by fastforce
    then show "set (ends False ?rest t 1) \<noteq> {}" by (metis empty_iff)
  qed
  have "regexTest False validPattern t \<longleftrightarrow> ends False validPattern t 0 \<noteq> []"
    unfolding regexTest_iff using bol by (metis le0)
  also have "\<dots> \<longleftrightarrow> set (ends False validPattern t 0) \<noteq> {}" by simp
  also have "\<dots> \<longleftrightarrow> apiNameShape t"
    unfolding zero shape_nth using rest by auto
  finally show ?thesis .
qed

section \<open>Operation history log (src/utils/historyManager.ts)\<close>

text \<open>
  The TypeScript enum \<^verbatim>\<open>OperationType\<close> and the interface \<^verbatim>\<open>HistoryEntry\<close>.
  A timestamp is the number of milliseconds a JavaScript \<^verbatim>\<open>Date\<close> holds; an optional
  member of \<^verbatim>\<open>details\<close> is an \<open>option\<close>, \<open>None\<close> standing for \<^verbatim>\<open>undefined\<close>.
\<close>

datatype OperationType =
    REMOVE_FIELD_REFERENCES
  | DELETE_FIELD_FILES
  | CLEANUP_PROFILES
  | CLEANUP_PERMISSION_SETS
  | REMOVE_APEX_REFERENCES
  | REMOVE_OBJECT_REFERENCES
  | REMOVE_FLOW_REFERENCES
  | REMOVE_LAYOUT_ITEMS
  | BULK_OPERATION

record Details =
  object' :: "string option"
  fields' :: "string list option"
  filesModified :: "string list option"
  filesDeleted :: "string list option"
  totalRemoved :: "nat option"
  backupPath :: "string option"
  metadataType :: "string option"
  skippedDueToVisibilityRules :: "string list option"

record HistoryEntry =
  id' :: "string option"
  type' :: OperationType
  timestamp :: int
  details :: Details

text \<open>
  What a \<^verbatim>\<open>HistoryManager\<close> reads and writes: the value stored under the key
  \<^verbatim>\<open>cleanforce.history\<close> of the extension's global state (\<open>None\<close> before the first
  save), and the setting \<^verbatim>\<open>cleanforce.maxHistoryItems\<close> (\<open>None\<close> when the
  configuration gives \<^verbatim>\<open>undefined\<close>).
\<close>

record HistoryState =
  globalState :: "HistoryEntry list option"
  maxHistoryItems :: "int option"

text \<open>
  \<^verbatim>\<open>getHistory\<close>: \<^verbatim>\<open>globalState.get(key) || []\<close>, each entry copied with its timestamp
  rebuilt by \<^verbatim>\<open>new Date(entry.timestamp)\<close>, which keeps the milliseconds.
\<close>

definition getHistory :: "HistoryState \<Rightarrow> HistoryEntry list" where
  "getHistory st =
     map (\<lambda>entry. entry\<lparr>timestamp := timestamp entry\<rparr>)
       (case globalState st of None \<Rightarrow> [] | Some h \<Rightarrow> h)"

definition saveHistory :: "HistoryEntry list \<Rightarrow> HistoryState \<Rightarrow> HistoryState" where
  "saveHistory history st = st\<lparr>globalState := Some history\<rparr>"

text \<open>
  \<^verbatim>\<open>Array.prototype.splice(start)\<close> with one argument deletes from \<open>start\<close> to the end;
  a negative \<open>start\<close> counts from the end of the array (and is clamped at 0).
\<close>

definition splice :: "int \<Rightarrow> 'a list \<Rightarrow> 'a list" where
  "splice start xs =
     (if start < 0 then take (nat (max (int (length xs) + start) 0)) xs
      else take (nat start) xs)"

text \<open>
  \<^verbatim>\<open>config.get<number>('maxHistoryItems') || 50\<close>: \<^verbatim>\<open>undefined\<close> and \<open>0\<close> are falsy
  and give the default.
\<close>

definition maxItems :: "HistoryState \<Rightarrow> int" where
  "maxItems st = (case maxHistoryItems st of None \<Rightarrow> 50 | Some n \<Rightarrow> if n = 0 then 50 else n)"

text \<open>
  \<^verbatim>\<open>addEntry\<close>. The id, built in the source from \<^verbatim>\<open>Date.now()\<close> and
  \<^verbatim>\<open>Math.random()\<close>, is an input of the model.
\<close>

definition addEntry :: "string \<Rightarrow> HistoryEntry \<Rightarrow> HistoryState \<Rightarrow> HistoryState" where
  "addEntry newId entry st =
     (let history = getHistory st;
          entry1 = entry\<lparr>id' := Some newId\<rparr>;
          history1 = entry1 # history;
          history2 = (if int (length history1) > maxItems st
                      then splice (maxItems st) history1 else history1)
      in saveHistory history2 st)"

text \<open>A sequence of calls of \<^verbatim>\<open>addEntry\<close>, first call first.\<close>

fun addEntries :: "(string \<times> HistoryEntry) list \<Rightarrow> HistoryState \<Rightarrow> HistoryState" where
  "addEntries [] st = st"
| "addEntries ((i, e) # es) st = addEntries es (addEntry i e st)"

definition emptyDetails :: Details where
  "emptyDetails = \<lparr>object' = None, fields' = None, filesModified = None, filesDeleted = None,
     totalRemoved = None, backupPath = None, metadataType = None,
     skippedDueToVisibilityRules = None\<rparr>"

definition sampleEntry :: "int \<Rightarrow> HistoryEntry" where
  "sampleEntry t = \<lparr>id' = None, type' = CLEANUP_PROFILES, timestamp = t, details = emptyDetails\<rparr>"

subsection \<open>Facts about the history log\<close>

lemma getHistory_id: "getHistory st = (case globalState st of None \<Rightarrow> [] | Some h \<Rightarrow> h)"
  by (simp add: getHistory_def)

lemma maxHistoryItems_saveHistory [simp]:
  "maxHistoryItems (saveHistory h st) = maxHistoryItems st"
  by (simp add: saveHistory_def)

lemma maxItems_saveHistory [simp]: "maxItems (saveHistory h st) = maxItems st"
  by (simp add: maxItems_def)

lemma getHistory_saveHistory [simp]: "getHistory (saveHistory h st) = h"
  by (simp add: getHistory_id saveHistory_def)

lemma maxItems_addEntry [simp]: "maxItems (addEntry i e st) = maxItems st"
  by (simp add: addEntry_def Let_def)

lemma maxItems_addEntries [simp]: "maxItems (addEntries es st) = maxItems st"
  by (induction es arbitrary: st) auto

lemma getHistory_addEntry_pos:
  assumes "0 < maxItems st"
  shows "getHistory (addEntry i e st) = take (nat (maxItems st)) (e\<lparr>id' := Some i\<rparr> # getHistory st)"
proof -
  let ?h = "e\<lparr>id' := Some i\<rparr> # getHistory st"
  show ?thesis
  proof (cases "int (length ?h) > maxItems st")
    case True
    then show ?thesis using assms by (simp add: addEntry_def Let_def splice_def)
  next
    case False
    then have "length ?h \<le> nat (maxItems st)" by linarith
    then have "take (nat (maxItems st)) ?h = ?h" by (rule take_all)
    then show ?thesis using False by (simp add: addEntry_def Let_def)
  qed
qed

lemma length_addEntry_pos:
  assumes "0 < maxItems st"
  shows "length (getHistory (addEntry i e st)) = min (nat (maxItems st)) (Suc (length (getHistory st)))"
  using assms by (simp add: getHistory_addEntry_pos)

lemma length_addEntries_pos:
  assumes "0 < maxItems st"
  shows "length (getHistory (addEntries es st))
           = (if es = [] then length (getHistory st)
              else min (nat (maxItems st)) (length (getHistory st) + length es))"
  using assms
proof (induction es arbitrary: st)
  case Nil
  then show ?case by simp
next
  case (Cons a es)
  obtain i e where a: "a = (i, e)" by (cases a)
  have pos: "0 < maxItems (addEntry i e st)" using Cons.prems by simp
  show ?case
    using Cons.IH [OF pos] Cons.prems
    by (auto simp: a length_addEntry_pos min_def)
qed

lemma hd_addEntries_pos:
  assumes "0 < maxItems st" and "es \<noteq> []"
  shows "hd (getHistory (addEntries es st)) = (snd (last es))\<lparr>id' := Some (fst (last es))\<rparr>"
  using assms
proof (induction es arbitrary: st)
  case Nil
  then show ?case by simp
next
  case (Cons a es)
  obtain i e where a: "a = (i, e)" by (cases a)
  have pos: "0 < maxItems (addEntry i e st)" using Cons.prems by simp
  show ?case
  proof (cases "es = []")
    case True
    have "0 < nat (maxItems st)" using Cons.prems by simp
    then obtain k where k: "nat (maxItems st) = Suc k" by (cases "nat (maxItems st)") auto
    show ?thesis using True Cons.prems by (simp add: a getHistory_addEntry_pos k)
  next
    case False
    then show ?thesis using Cons.IH [OF pos False] by (simp add: a)
  qed
qed

section \<open>Backup and restore (BackupManager)\<close>

text \<open>
  The file system is the files with their contents, the directories, and the paths at
  which a write or the making of a directory is refused. A path names a file or a
  directory by its spelling; a path listed in \<open>dirs\<close> is a directory, whatever \<open>files\<close>
  holds there. \<open>backupFolder\<close> is the field of the \<^verbatim>\<open>BackupManager\<close> instance, which
  \<^verbatim>\<open>createBackup\<close> sets and the mapping file is found through.
\<close>

datatype fs_error = ENOENT | EACCES | EISDIR | EEXIST

record World =
  files :: "string \<Rightarrow> string option"
  dirs :: "string list"
  unwritable :: "string list"
  backupFolder :: string

text \<open>
  What the editor gives: the path of the first workspace folder, if one is open, and the
  settings \<^verbatim>\<open>cleanforce.backupLocation\<close> and \<^verbatim>\<open>cleanforce.createBackup\<close>.
\<close>

record Env =
  workspaceFolder :: "string option"
  backupLocation :: "string option"
  createBackupSetting :: bool

text \<open>
  The values \<^verbatim>\<open>JSON.parse\<close> gives. An object is the list of its own members, in the order
  of its own property keys; a number is kept as an integer (this code computes with none).
\<close>

datatype json = JNull | JBool bool | JNumber int | JString string | JArray "json list"
  | JObject "(string \<times> json) list"

datatype js_error = TypeError | RangeError

text \<open>
  Library functions the backup manager calls and the sources do not hold:
  \<^verbatim>\<open>path.join\<close>, \<^verbatim>\<open>path.dirname\<close>, \<^verbatim>\<open>path.basename\<close>, \<^verbatim>\<open>vscode.workspace.asRelativePath\<close>,
  \<^verbatim>\<open>JSON.parse\<close> (\<open>None\<close> when it throws), \<^verbatim>\<open>JSON.stringify(value, null, 2)\<close>, and the
  array length that a string denotes when it is assigned to the \<^verbatim>\<open>length\<close> of an array
  (\<open>None\<close> when the assignment throws a \<^verbatim>\<open>RangeError\<close>).
\<close>

record Platform =
  pathJoin :: "string list \<Rightarrow> string"
  pathDirname :: "string \<Rightarrow> string"
  pathBasename :: "string \<Rightarrow> string"
  asRelativePath :: "string \<Rightarrow> string"
  jsonParse :: "string \<Rightarrow> json option"
  jsonStringify :: "json \<Rightarrow> string"
  arrayLengthOf :: "string \<Rightarrow> nat option"

subsection \<open>Members of a parsed value\<close>

text \<open>
  An array index is the decimal spelling, without leading zeros, of a number below
  \<open>2\<^sup>3\<^sup>2 - 1\<close>. The own keys of an object are kept with the array indices first, in
  ascending order, and the other keys after them in the order of their creation.
\<close>

definition indexValue :: "string \<Rightarrow> nat" where
  "indexValue s = foldl (\<lambda>n c. 10 * n + (of_char c - 48)) 0 s"

definition isArrayIndex :: "string \<Rightarrow> bool" where
  "isArrayIndex s = (s \<noteq> [] \<and> list_all isDigit s \<and> (s = ''0'' \<or> hd s \<noteq> CHR ''0'')
     \<and> indexValue s < 2 ^ 32 - 1)"

definition comesBefore :: "string \<Rightarrow> string \<Rightarrow> bool" where
  "comesBefore k k' = (isArrayIndex k \<and> (if isArrayIndex k' then indexValue k < indexValue k' else True))"

fun insertOwn :: "string \<Rightarrow> json \<Rightarrow> (string \<times> json) list \<Rightarrow> (string \<times> json) list" where
  "insertOwn k v [] = [(k, v)]"
| "insertOwn k v (kv # m) =
     (if comesBefore k (fst kv) then (k, v) # kv # m else kv # insertOwn k v m)"

text \<open>The making of an own data property: the value of a key the object has is replaced
  where it stands, a new key takes its place in the order of the keys.\<close>

definition defineOwn :: "string \<Rightarrow> json \<Rightarrow> (string \<times> json) list \<Rightarrow> (string \<times> json) list" where
  "defineOwn k v m = (if k \<in> set (map fst m) then AList.update k v m else insertOwn k v m)"

text \<open>
  The assignment \<^verbatim>\<open>o[k] = v\<close> of a string \<open>v\<close> to a plain object. For the key \<^verbatim>\<open>__proto__\<close>
  that the object does not have of its own, the assignment runs the setter of
  \<^verbatim>\<open>Object.prototype\<close>, which does nothing for a value that is neither an object nor
  \<^verbatim>\<open>null\<close>: no member is made.
\<close>

definition setOwn :: "string \<Rightarrow> json \<Rightarrow> (string \<times> json) list \<Rightarrow> (string \<times> json) list" where
  "setOwn k v m =
     (if k = ''__proto__'' \<and> k \<notin> set (map fst m) then m else defineOwn k v m)"

text \<open>An element of an array set at an index; the indices skipped are holes, which
  \<^verbatim>\<open>JSON.stringify\<close> writes as \<^verbatim>\<open>null\<close>. The length of an array set.\<close>

definition setIndex :: "nat \<Rightarrow> json \<Rightarrow> json list \<Rightarrow> json list" where
  "setIndex i v xs =
     (if i < length xs then xs[i := v] else xs @ replicate (i - length xs) JNull @ [v])"

definition setLength :: "nat \<Rightarrow> json list \<Rightarrow> json list" where
  "setLength n xs = take n xs @ replicate (n - length xs) JNull"

text \<open>
  \<^verbatim>\<open>mappings[originalPath] = backupPath\<close>, in strict code (the body of a class), for each
  kind of value \<^verbatim>\<open>JSON.parse\<close> can have given. On \<^verbatim>\<open>null\<close> it throws. On a boolean, a
  number or a string it throws too, but for the key \<^verbatim>\<open>__proto__\<close>, where the setter of
  \<^verbatim>\<open>Object.prototype\<close> returns without a change. On an array an index sets an element,
  \<^verbatim>\<open>length\<close> sets the length or throws, \<^verbatim>\<open>__proto__\<close> changes nothing, and any other key
  makes a property that \<^verbatim>\<open>JSON.stringify\<close> does not write.
\<close>

definition assignMember :: "Platform \<Rightarrow> json \<Rightarrow> string \<Rightarrow> string \<Rightarrow> js_error + json" where
  "assignMember pf mappings k v =
     (case mappings of
        JNull \<Rightarrow> Inl TypeError
      | JObject m \<Rightarrow> Inr (JObject (setOwn k (JString v) m))
      | JArray xs \<Rightarrow>
          if isArrayIndex k then Inr (JArray (setIndex (indexValue k) (JString v) xs))
          else if k = ''length'' then
            (case arrayLengthOf pf v of
               None \<Rightarrow> Inl RangeError
             | Some n \<Rightarrow> Inr (JArray (setLength n xs)))
          else Inr (JArray xs)
      | _ \<Rightarrow> if k = ''__proto__'' then Inr mappings else Inl TypeError)"

text \<open>
  \<^verbatim>\<open>mappings[originalPath]\<close>. On \<^verbatim>\<open>null\<close> it throws. \<open>None\<close> is \<^verbatim>\<open>undefined\<close>; it also
  stands for the members that come from a prototype (functions and prototype objects),
  which are no strings.
\<close>

definition getMember :: "json \<Rightarrow> string \<Rightarrow> js_error + json option" where
  "getMember mappings k =
     (case mappings of
        JNull \<Rightarrow> Inl TypeError
      | JObject m \<Rightarrow> Inr (map_of m k)
      | JArray xs \<Rightarrow>
          Inr (if isArrayIndex k \<and> indexValue k < length xs then Some (xs ! indexValue k)
               else if k = ''length'' then Some (JNumber (int (length xs)))
               else None)
      | JString s \<Rightarrow>
          Inr (if isArrayIndex k \<and> indexValue k < length s then Some (JString [s ! indexValue k])
               else if k = ''length'' then Some (JNumber (int (length s)))
               else None)
      | _ \<Rightarrow> Inr None)"

subsection \<open>The calls of \<^verbatim>\<open>fs\<close>\<close>

text \<open>Which error a call raises is not seen by this code, which catches them all.\<close>

definition existsSync :: "string \<Rightarrow> World \<Rightarrow> bool" where
  "existsSync p w = (files w p \<noteq> None \<or> p \<in> set (dirs w))"

definition readFileSync :: "string \<Rightarrow> World \<Rightarrow> fs_error + string" where
  "readFileSync p w =
     (if p \<in> set (dirs w) then Inl EISDIR
      else (case files w p of None \<Rightarrow> Inl ENOENT | Some bytes \<Rightarrow> Inr bytes))"

text \<open>A file is written where no directory stands, in a directory that exists, at a
  path that is not refused.\<close>

definition writeFileSync :: "Platform \<Rightarrow> string \<Rightarrow> string \<Rightarrow> World \<Rightarrow> fs_error + World" where
  "writeFileSync pf p bytes w =
     (if p \<in> set (dirs w) then Inl EISDIR
      else if pathDirname pf p \<notin> set (dirs w) then Inl ENOENT
      else if p \<in> set (unwritable w) then Inl EACCES
      else Inr (w\<lparr>files := (files w)(p \<mapsto> bytes)\<rparr>))"

definition copyFileSync :: "Platform \<Rightarrow> string \<Rightarrow> string \<Rightarrow> World \<Rightarrow> fs_error + World" where
  "copyFileSync pf src dst w =
     (case readFileSync src w of
        Inl e \<Rightarrow> Inl e
      | Inr bytes \<Rightarrow> writeFileSync pf dst bytes w)"

text \<open>
  A directory, its directory, the directory of that, up to the one that is its own
  directory (the root, or \<^verbatim>\<open>.\<close>). The chain is followed for as many steps as the path has
  characters, which reaches its end, \<^verbatim>\<open>path.dirname\<close> never giving a longer path.
\<close>

fun ancestors :: "Platform \<Rightarrow> nat \<Rightarrow> string \<Rightarrow> string list" where
  "ancestors pf 0 d = [d]"
| "ancestors pf (Suc n) d =
     (if pathDirname pf d = d then [d] else d # ancestors pf n (pathDirname pf d))"

text \<open>
  \<^verbatim>\<open>fs.mkdirSync(d, { recursive: true })\<close> makes the directories of the chain that are
  missing, the highest first, and stops at the first that cannot be made: a file stands
  there, or the path is refused. The result is the error, if any, and the world with the
  directories made up to there.
\<close>

fun mkdirs :: "string list \<Rightarrow> World \<Rightarrow> fs_error option \<times> World" where
  "mkdirs [] w = (None, w)"
| "mkdirs (p # ps) w =
     (if p \<in> set (dirs w) then mkdirs ps w
      else if files w p \<noteq> None then (Some EEXIST, w)
      else if p \<in> set (unwritable w) then (Some EACCES, w)
      else mkdirs ps (w\<lparr>dirs := dirs w @ [p]\<rparr>))"

definition mkdirSync :: "Platform \<Rightarrow> string \<Rightarrow> World \<Rightarrow> fs_error option \<times> World" where
  "mkdirSync pf d w = mkdirs (rev (ancestors pf (length d) d)) w"

text \<open>\<^verbatim>\<open>if (!fs.existsSync(dir)) { fs.mkdirSync(dir, { recursive: true }); }\<close>\<close>

definition ensureDir :: "Platform \<Rightarrow> string \<Rightarrow> World \<Rightarrow> fs_error option \<times> World" where
  "ensureDir pf d w = (if \<not> existsSync d w then mkdirSync pf d w else (None, w))"

subsection \<open>The backup manager\<close>

definition mappingFilePath :: "Platform \<Rightarrow> string \<Rightarrow> World \<Rightarrow> string" where
  "mappingFilePath pf ws w = pathJoin pf [ws, backupFolder w, ''backup-mapping.json'']"

text \<open>
  \<^verbatim>\<open>storeBackupMapping\<close>: the whole body is in a \<^verbatim>\<open>try\<close> whose \<^verbatim>\<open>catch\<close> only logs, so
  a failing step leaves the world as the steps before it made it.
\<close>

definition storeBackupMapping :: "Platform \<Rightarrow> Env \<Rightarrow> string \<Rightarrow> string \<Rightarrow> World \<Rightarrow> World" where
  "storeBackupMapping pf env originalPath backupPath' w =
     (case workspaceFolder env of
        None \<Rightarrow> w
      | Some ws \<Rightarrow>
          let mappingFile = mappingFilePath pf ws w;
              loaded = (if existsSync mappingFile w
                        then (case readFileSync mappingFile w of
                                Inl e \<Rightarrow> None
                              | Inr bytes \<Rightarrow> jsonParse pf bytes)
                        else Some (JObject []))
          in (case loaded of
                None \<Rightarrow> w
              | Some mappings \<Rightarrow>
                  (case assignMember pf mappings originalPath backupPath' of
                     Inl e \<Rightarrow> w
                   | Inr mappings1 \<Rightarrow>
                       let mappingDir = pathDirname pf mappingFile;
                           (err, w1) = ensureDir pf mappingDir w
                       in (case err of
                             Some e \<Rightarrow> w1
                           | None \<Rightarrow>
                               (case writeFileSync pf mappingFile (jsonStringify pf mappings1) w1 of
                                  Inl e \<Rightarrow> w1
                                | Inr w2 \<Rightarrow> w2)))))"

text \<open>\<^verbatim>\<open>getBackupPath\<close>: the member read, or \<open>None\<close> for \<^verbatim>\<open>undefined\<close>.\<close>

definition getBackupPath :: "Platform \<Rightarrow> Env \<Rightarrow> string \<Rightarrow> World \<Rightarrow> json option" where
  "getBackupPath pf env originalPath w =
     (case workspaceFolder env of
        None \<Rightarrow> None
      | Some ws \<Rightarrow>
          let mappingFile = mappingFilePath pf ws w
          in if \<not> existsSync mappingFile w then None
             else (case readFileSync mappingFile w of
                     Inl e \<Rightarrow> None
                   | Inr bytes \<Rightarrow>
                       (case jsonParse pf bytes of
                          None \<Rightarrow> None
                        | Some mappings \<Rightarrow>
                            (case getMember mappings originalPath of
                               Inl e \<Rightarrow> None
                             | Inr v \<Rightarrow> v))))"

text \<open>
  \<^verbatim>\<open>createBackup(filePath)\<close>; \<open>now\<close> is \<^verbatim>\<open>new Date().toISOString()\<close>. The result is the
  backup path, or \<open>None\<close> for \<^verbatim>\<open>undefined\<close> (no workspace folder, or a step threw).
\<close>

definition createBackup :: "Platform \<Rightarrow> Env \<Rightarrow> string \<Rightarrow> string \<Rightarrow> World \<Rightarrow> string option \<times> World" where
  "createBackup pf env now filePath w =
     (case workspaceFolder env of
        None \<Rightarrow> (None, w)
      | Some ws \<Rightarrow>
          let folder = (case backupLocation env of
                          None \<Rightarrow> ''.cleanforce/backups''
                        | Some l \<Rightarrow> if l = [] then ''.cleanforce/backups'' else l);
              w0 = w\<lparr>backupFolder := folder\<rparr>;
              timestamp' = replaceAllWith (RegExp ''[:.]'') (\<lambda>m. ''-'') now;
              relativePath = asRelativePath pf filePath;
              backupDir = pathJoin pf [ws, folder, timestamp'];
              backupPath' = pathJoin pf [backupDir, relativePath];
              backupFileDir = pathDirname pf backupPath';
              (err, w1) = ensureDir pf backupFileDir w0
          in (case err of
                Some e \<Rightarrow> (None, w1)
              | None \<Rightarrow>
                  (case copyFileSync pf filePath backupPath' w1 of
                     Inl e \<Rightarrow> (None, w1)
                   | Inr w2 \<Rightarrow>
                       (Some backupPath', storeBackupMapping pf env filePath backupPath' w2))))"

text \<open>
  \<^verbatim>\<open>restoreBackup(originalPath)\<close>. \<^verbatim>\<open>!backupPath\<close> holds for \<^verbatim>\<open>undefined\<close>, \<^verbatim>\<open>null\<close>,
  \<^verbatim>\<open>false\<close>, zero and the empty string; for any other value that is not a string
  \<^verbatim>\<open>fs.existsSync\<close> is false.
\<close>

definition restoreBackup :: "Platform \<Rightarrow> Env \<Rightarrow> string \<Rightarrow> World \<Rightarrow> bool \<times> World" where
  "restoreBackup pf env originalPath w =
     (case getBackupPath pf env originalPath w of
        Some (JString bp) \<Rightarrow>
          if bp = [] \<or> \<not> existsSync bp w then (False, w)
          else (case copyFileSync pf bp originalPath w of
                  Inl e \<Rightarrow> (False, w)
                | Inr w1 \<Rightarrow> (True, w1))
      | _ \<Rightarrow> (False, w))"

text \<open>The backup folder, the path of the copy and the path of the mapping file that
  \<^verbatim>\<open>createBackup\<close> computes, and the directories it may have to make: the chains of the
  directory of the copy and of the directory of the mapping file.\<close>

definition backupFolderOf :: "Env \<Rightarrow> string" where
  "backupFolderOf env =
     (case backupLocation env of
        None \<Rightarrow> ''.cleanforce/backups''
      | Some l \<Rightarrow> if l = [] then ''.cleanforce/backups'' else l)"

definition backupPathOf :: "Platform \<Rightarrow> Env \<Rightarrow> string \<Rightarrow> string \<Rightarrow> string \<Rightarrow> string" where
  "backupPathOf pf env ws now filePath =
     pathJoin pf [pathJoin pf [ws, backupFolderOf env,
        replaceAllWith (RegExp ''[:.]'') (\<lambda>m. ''-'') now], asRelativePath pf filePath]"

definition mappingFileOf :: "Platform \<Rightarrow> Env \<Rightarrow> string \<Rightarrow> string" where
  "mappingFileOf pf env ws = pathJoin pf [ws, backupFolderOf env, ''backup-mapping.json'']"

definition chain :: "Platform \<Rightarrow> string \<Rightarrow> string list" where
  "chain pf p = ancestors pf (length (pathDirname pf p)) (pathDirname pf p)"

definition dirsNeeded :: "Platform \<Rightarrow> Env \<Rightarrow> string \<Rightarrow> string \<Rightarrow> string \<Rightarrow> string list" where
  "dirsNeeded pf env ws now filePath =
     chain pf (backupPathOf pf env ws now filePath) @ chain pf (mappingFileOf pf env ws)"

subsection \<open>A small platform\<close>

text \<open>
  A stand-in for the platform, used where a concrete one is needed. Paths are joined
  with a slash; the directory of a path is what stands before its last slash; the
  workspace is \<^verbatim>\<open>/ws\<close>. The JSON writer and reader are those of the objects whose members
  are strings, in the layout of \<^verbatim>\<open>JSON.stringify(value, null, 2)\<close>: the writer writes
  \<^verbatim>\<open>null\<close> for a value of another kind and the reader refuses every other text.
\<close>

fun joinSlash :: "string list \<Rightarrow> string" where
  "joinSlash [] = ''.''"
| "joinSlash [p] = p"
| "joinSlash (p # ps) = p @ ''/'' @ joinSlash ps"

definition toyDirname :: "string \<Rightarrow> string" where
  "toyDirname p =
     (let d = rev (drop 1 (dropWhile (\<lambda>c. c \<noteq> CHR ''/'') (rev p)))
      in if CHR ''/'' \<notin> set p then ''.'' else if d = [] then ''/'' else d)"

definition toyBasename :: "string \<Rightarrow> string" where
  "toyBasename p = rev (takeWhile (\<lambda>c. c \<noteq> CHR ''/'') (rev p))"

definition toyRelative :: "string \<Rightarrow> string" where
  "toyRelative p = (if take 4 p = ''/ws/'' then drop 4 p else p)"

definition dquote :: char where "dquote = CHR 0x22"

definition newline :: char where "newline = CHR 0x0A"

fun quoteChars :: "string \<Rightarrow> string" where
  "quoteChars [] = []"
| "quoteChars (c # s) = (if c = dquote \<or> c = bslash then [bslash, c] else [c]) @ quoteChars s"

definition quote :: "string \<Rightarrow> string" where
  "quote s = dquote # quoteChars s @ [dquote]"

definition toyValue :: "json \<Rightarrow> string" where
  "toyValue v = (case v of JString s \<Rightarrow> quote s | _ \<Rightarrow> ''null'')"

fun joinWith :: "string \<Rightarrow> string list \<Rightarrow> string" where
  "joinWith sep [] = []"
| "joinWith sep [x] = x"
| "joinWith sep (x # xs) = x @ sep @ joinWith sep xs"

definition toyStringify :: "json \<Rightarrow> string" where
  "toyStringify v =
     (case v of
        JObject m \<Rightarrow>
          if m = [] then ''{}''
          else ''{'' @ [newline]
               @ joinWith ('','' @ [newline]) (map (\<lambda>kv. ''  '' @ quote (fst kv) @ '': '' @ toyValue (snd kv)) m)
               @ [newline] @ ''}''
      | _ \<Rightarrow> toyValue v)"

definition skipWs :: "string \<Rightarrow> string" where
  "skipWs s = dropWhile (\<lambda>c. c = CHR '' '' \<or> c = newline \<or> c = CHR 0x09 \<or> c = CHR 0x0D) s"

text \<open>The characters of a string up to its closing quote, and what follows it.\<close>

fun readString :: "string \<Rightarrow> (string \<times> string) option" where
  "readString [] = None"
| "readString [c] = (if c = dquote then Some ([], []) else None)"
| "readString (c # e # s) =
     (if c = dquote then Some ([], e # s)
      else if c = bslash then
        (if e = dquote \<or> e = bslash \<or> e = CHR ''/''
         then map_option (\<lambda>tr. (e # fst tr, snd tr)) (readString s)
         else None)
      else if (of_char c :: nat) < 32 then None
      else map_option (\<lambda>tr. (c # fst tr, snd tr)) (readString (e # s)))"

text \<open>A quoted string after white space.\<close>

definition readQuoted :: "string \<Rightarrow> (string \<times> string) option" where
  "readQuoted s =
     (case skipWs s of
        [] \<Rightarrow> None
      | c # r \<Rightarrow> if c = dquote then readString r else None)"

text \<open>The members after the opening brace or a comma, up to the closing brace, which
  ends the text.\<close>

fun readMembers :: "nat \<Rightarrow> string \<Rightarrow> (string \<times> json) list option" where
  "readMembers 0 s = None"
| "readMembers (Suc n) s =
     (case readQuoted s of
        None \<Rightarrow> None
      | Some (k, r1) \<Rightarrow>
          (case skipWs r1 of
             [] \<Rightarrow> None
           | c1 # r2 \<Rightarrow>
               if c1 \<noteq> CHR '':'' then None
               else (case readQuoted r2 of
                       None \<Rightarrow> None
                     | Some (v, r3) \<Rightarrow>
                         (case skipWs r3 of
                            [] \<Rightarrow> None
                          | c2 # r4 \<Rightarrow>
                              if c2 = CHR ''}'' then (if skipWs r4 = [] then Some [(k, JString v)] else None)
                              else if c2 = CHR '','' then map_option (Cons (k, JString v)) (readMembers n r4)
                              else None))))"

text \<open>A key written twice keeps its place and takes the later value.\<close>

definition toyParse :: "string \<Rightarrow> json option" where
  "toyParse s =
     (case skipWs s of
        [] \<Rightarrow> None
      | c # r \<Rightarrow>
          if c \<noteq> CHR ''{'' then None
          else (case skipWs r of
                  [] \<Rightarrow> None
                | c1 # r1 \<Rightarrow>
                    if c1 = CHR ''}'' then (if skipWs r1 = [] then Some (JObject []) else None)
                    else map_option (\<lambda>m. JObject (foldl (\<lambda>acc kv. defineOwn (fst kv) (snd kv) acc) [] m))
                           (readMembers (length s) r)))"

definition toyLength :: "string \<Rightarrow> nat option" where
  "toyLength s = (if isArrayIndex s then Some (indexValue s) else None)"

definition toyPlatform :: Platform where
  "toyPlatform = \<lparr>pathJoin = joinSlash, pathDirname = toyDirname, pathBasename = toyBasename,
     asRelativePath = toyRelative, jsonParse = toyParse, jsonStringify = toyStringify,
     arrayLengthOf = toyLength\<rparr>"

definition sampleEnv :: Env where
  "sampleEnv = \<lparr>workspaceFolder = Some ''/ws'', backupLocation = None, createBackupSetting = True\<rparr>"

text \<open>A world with the workspace directory and one file in it.\<close>

definition sampleWorld :: "string \<Rightarrow> string \<Rightarrow> World" where
  "sampleWorld p bytes = \<lparr>files = Map.empty(p \<mapsto> bytes), dirs = [''/'', ''/ws''], unwritable = [],
     backupFolder = ''.cleanforce/backups''\<rparr>"

subsection \<open>Facts about backup and restore\<close>

lemma map_of_insertOwn: "k \<notin> set (map fst m) \<Longrightarrow> map_of (insertOwn k v m) k = Some v"
  by (induction m) auto

lemma map_of_setOwn:
  "k \<noteq> ''__proto__'' \<or> k \<in> set (map fst m) \<Longrightarrow> map_of (setOwn k v m) k = Some v"
  by (auto simp: setOwn_def defineOwn_def map_of_insertOwn update_conv')

lemma mkdirs_ok:
  "list_all (\<lambda>p. p \<in> set (dirs w) \<or> files w p = None \<and> p \<notin> set (unwritable w)) ds \<Longrightarrow>
   fst (mkdirs ds w) = None \<and> files (snd (mkdirs ds w)) = files w
   \<and> unwritable (snd (mkdirs ds w)) = unwritable w
   \<and> backupFolder (snd (mkdirs ds w)) = backupFolder w
   \<and> set (dirs (snd (mkdirs ds w))) = set (dirs w) \<union> set ds"
proof (induction ds arbitrary: w)
  case Nil
  then show ?case by simp
next
  case (Cons p ps)
  show ?case
  proof (cases "p \<in> set (dirs w)")
    case True
    with Cons.prems have "list_all (\<lambda>p. p \<in> set (dirs w) \<or> files w p = None \<and> p \<notin> set (unwritable w)) ps"
      by simp
    from Cons.IH [OF this] True show ?thesis by auto
  next
    case False
    let ?w = "w\<lparr>dirs := dirs w @ [p]\<rparr>"
    from Cons.prems False have p: "files w p = None" "p \<notin> set (unwritable w)" by auto
    from Cons.prems
    have "list_all (\<lambda>q. q \<in> set (dirs ?w) \<or> files ?w q = None \<and> q \<notin> set (unwritable ?w)) ps"
      by (auto simp: list_all_iff)
    from Cons.IH [OF this] False p show ?thesis by auto
  qed
qed

lemma ancestors_self: "d \<in> set (ancestors pf n d)"
  by (cases n) auto

lemma ensureDir_ok:
  assumes "list_all (\<lambda>p. p \<in> set (dirs w) \<or> files w p = None \<and> p \<notin> set (unwritable w))
             (ancestors pf (length d) d)"
  shows "fst (ensureDir pf d w) = None \<and> files (snd (ensureDir pf d w)) = files w
   \<and> unwritable (snd (ensureDir pf d w)) = unwritable w
   \<and> backupFolder (snd (ensureDir pf d w)) = backupFolder w
   \<and> d \<in> set (dirs (snd (ensureDir pf d w)))
   \<and> set (dirs w) \<subseteq> set (dirs (snd (ensureDir pf d w)))
   \<and> set (dirs (snd (ensureDir pf d w))) \<subseteq> set (dirs w) \<union> set (ancestors pf (length d) d)"
proof (cases "existsSync d w")
  case True
  from assms ancestors_self [of d pf "length d"]
  have "d \<in> set (dirs w) \<or> files w d = None" by (auto simp: list_all_iff)
  with True have "d \<in> set (dirs w)" by (auto simp: existsSync_def)
  with True show ?thesis by (simp add: ensureDir_def)
next
  case False
  from assms
  have "list_all (\<lambda>p. p \<in> set (dirs w) \<or> files w p = None \<and> p \<notin> set (unwritable w))
          (rev (ancestors pf (length d) d))"
    by (simp add: list_all_iff)
  from mkdirs_ok [OF this] False ancestors_self [of d pf "length d"]
  show ?thesis by (auto simp: ensureDir_def mkdirSync_def)
qed

lemma createBackup_copied:
  assumes "workspaceFolder env = Some ws"
    and "ensureDir pf (pathDirname pf (backupPathOf pf env ws now filePath))
           (w\<lparr>backupFolder := backupFolderOf env\<rparr>) = (None, w1)"
    and "copyFileSync pf filePath (backupPathOf pf env ws now filePath) w1 = Inr w2"
  shows "createBackup pf env now filePath w =
     (Some (backupPathOf pf env ws now filePath),
      storeBackupMapping pf env filePath (backupPathOf pf env ws now filePath) w2)"
  using assms unfolding createBackup_def backupPathOf_def backupFolderOf_def
  by (simp add: Let_def)

lemma restoreBackup_failed: "fst (restoreBackup pf env p w) = False \<Longrightarrow> snd (restoreBackup pf env p w) = w"
  by (auto simp: restoreBackup_def split: option.splits sum.splits if_splits json.splits)

section \<open>Undo (HistoryManager.undoLast)\<close>

text \<open>\<^verbatim>\<open>getLastEntry\<close>: the head of the history, or \<^verbatim>\<open>undefined\<close>.\<close>

definition getLastEntry :: "HistoryState \<Rightarrow> HistoryEntry option" where
  "getLastEntry st = (case getHistory st of [] \<Rightarrow> None | e # es \<Rightarrow> Some e)"

text \<open>
  The loop \<^verbatim>\<open>for (const filePath of lastEntry.details.filesModified) await
  backupManager.restoreBackup(filePath)\<close>. The source drops what \<^verbatim>\<open>restoreBackup\<close>
  returns; the model keeps, beside the world, the list of the calls made with their
  results, so that a theorem can speak of them.
\<close>

fun restoreAll :: "Platform \<Rightarrow> Env \<Rightarrow> string list \<Rightarrow> World \<Rightarrow> (string \<times> bool) list \<times> World" where
  "restoreAll pf env [] w = ([], w)"
| "restoreAll pf env (filePath # ps) w =
     (let (ok, w1) = restoreBackup pf env filePath w;
          (calls, w2) = restoreAll pf env ps w1
      in ((filePath, ok) # calls, w2))"

text \<open>
  \<^verbatim>\<open>undoLast\<close>; \<open>confirmed\<close> says that the user answered \<^verbatim>\<open>'Yes, Undo'\<close>. Nothing in the
  \<^verbatim>\<open>try\<close> block throws (\<^verbatim>\<open>restoreBackup\<close> catches its own errors), so the \<^verbatim>\<open>catch\<close>
  has no branch here. The result is the returned boolean, the restore calls made, and
  the new history and world.
\<close>

definition undoLast :: "Platform \<Rightarrow> Env \<Rightarrow> bool \<Rightarrow> HistoryState \<Rightarrow> World
    \<Rightarrow> bool \<times> (string \<times> bool) list \<times> HistoryState \<times> World" where
  "undoLast pf env confirmed st w =
     (case getLastEntry st of
        None \<Rightarrow> (False, [], st, w)
      | Some lastEntry \<Rightarrow>
          if (backupPath (details lastEntry) = None \<or> backupPath (details lastEntry) = Some [])
             \<and> filesModified (details lastEntry) = None
          then (False, [], st, w)
          else if \<not> confirmed then (False, [], st, w)
          else
            let (calls, w1) = (case filesModified (details lastEntry) of
                                 None \<Rightarrow> ([], w)
                               | Some ps \<Rightarrow> restoreAll pf env ps w);
                history = getHistory st
            in (True, calls, saveHistory (tl history) st, w1))"

subsection \<open>Facts about undo\<close>

lemma restoreAll_calls: "map fst (fst (restoreAll pf env ps w)) = ps"
  by (induction ps arbitrary: w) (simp_all add: Let_def case_prod_beta)

lemma restoreAll_append:
  "restoreAll pf env (ps @ qs) w =
     (fst (restoreAll pf env ps w) @ fst (restoreAll pf env qs (snd (restoreAll pf env ps w))),
      snd (restoreAll pf env qs (snd (restoreAll pf env ps w))))"
  by (induction ps arbitrary: w) (simp_all add: Let_def case_prod_beta)

section \<open>Field removal (FieldRemover)\<close>

text \<open>\<^verbatim>\<open>String.prototype.replace\<close> with a string pattern (the first occurrence only).\<close>

fun replaceFirst :: "string \<Rightarrow> string \<Rightarrow> string \<Rightarrow> string" where
  "replaceFirst p rep [] = (if p = [] then rep else [])"
| "replaceFirst p rep (c # cs) =
     (if take (length p) (c # cs) = p then rep @ drop (length p) (c # cs)
      else c # replaceFirst p rep cs)"

text \<open>\<^verbatim>\<open>String.prototype.split\<close> with a one-character separator.\<close>

fun splitOn :: "char \<Rightarrow> string \<Rightarrow> string list" where
  "splitOn d [] = [[]]"
| "splitOn d (c # cs) =
     (if c = d then [] # splitOn d cs
      else (case splitOn d cs of [] \<Rightarrow> [[c]] | x # xs \<Rightarrow> (c # x) # xs))"

subsection \<open>What reaches the rewriters\<close>

text \<open>
  \<^verbatim>\<open>FieldRemover.execute\<close>, from what \<^verbatim>\<open>getObjectName\<close> and \<^verbatim>\<open>getFieldsToRemove\<close>
  returned to the \<^verbatim>\<open>objectName\<close> and \<^verbatim>\<open>fieldsToRemove\<close> it sets before the preview, the
  values \<^verbatim>\<open>processAllFiles\<close> works with once the user has confirmed; \<open>None\<close> when the
  command stops before that (a rejected object name, no valid field).
\<close>

definition validFields :: "string \<Rightarrow> string list \<Rightarrow> string list" where
  "validFields objectName fs =
     concat (map (\<lambda>f. case sanitizeApiName (JStr (replaceFirst (objectName @ ''.'') [] f)) of
                          None \<Rightarrow> []
                        | Some sanitized \<Rightarrow> [objectName @ ''.'' @ sanitized]) fs)"

definition execute :: "string \<Rightarrow> string list \<Rightarrow> (string \<times> string list) option" where
  "execute objName fs =
     (if objName = [] then None
      else (case sanitizeApiName (JStr objName) of
              None \<Rightarrow> None
            | Some sanitizedObjName \<Rightarrow>
                if fs = [] then None
                else if validFields sanitizedObjName fs = [] then None
                else Some (sanitizedObjName, validFields sanitizedObjName fs)))"

text \<open>\<^verbatim>\<open>FieldRemover.executeOnFile\<close> for a selected file, likewise, to the values
  \<^verbatim>\<open>processFile\<close> works with.\<close>

definition executeOnFile :: "string \<Rightarrow> string list \<Rightarrow> (string \<times> string list) option" where
  "executeOnFile objName fs =
     (if objName = [] then None
      else if fs = [] then None
      else Some (objName, map (\<lambda>f. objName @ ''.'' @ replaceFirst (objName @ ''.'') [] f) fs))"

subsection \<open>Profiles and permission sets: processFile\<close>

definition fieldPermissionPatterns :: "string \<Rightarrow> string list" where
  "fieldPermissionPatterns field =
     [bs ''s*<fieldPermissions>'' @ bs ''s*<editable>(?:true|false)</editable>'' @ bs ''s*<field>''
        @ escapeRegex field @ ''</field>'' @ bs ''s*<readable>(?:true|false)</readable>''
        @ bs ''s*</fieldPermissions>'',
      bs ''s*<fieldPermissions>'' @ bs ''s*<field>'' @ escapeRegex field @ ''</field>''
        @ bs ''s*<editable>(?:true|false)</editable>'' @ bs ''s*<readable>(?:true|false)</readable>''
        @ bs ''s*</fieldPermissions>'',
      bs ''s*<fieldPermissions>'' @ bs ''s*<readable>(?:true|false)</readable>''
        @ bs ''s*<editable>(?:true|false)</editable>'' @ bs ''s*<field>'' @ escapeRegex field
        @ ''</field>'' @ bs ''s*</fieldPermissions>'',
      bs ''s*<fieldPermissions>'' @ bs ''s*<readable>(?:true|false)</readable>'' @ bs ''s*<field>''
        @ escapeRegex field @ ''</field>'' @ bs ''s*<editable>(?:true|false)</editable>''
        @ bs ''s*</fieldPermissions>'']"

text \<open>
  \<^verbatim>\<open>const matches = content.match(pattern); if (matches) { removed += matches.length;
  content = content.replace(pattern, ''); }\<close> for a global pattern.
\<close>

definition applyPattern :: "string \<Rightarrow> string \<times> nat \<Rightarrow> string \<times> nat" where
  "applyPattern pattern acc =
     (case matchG False (RegExp pattern) (fst acc) of
        None \<Rightarrow> acc
      | Some matches \<Rightarrow>
          (replaceAllWith (RegExp pattern) (\<lambda>m. []) (fst acc), snd acc + length matches))"

definition removeFieldPermissions :: "string list \<Rightarrow> string \<Rightarrow> string \<times> nat" where
  "removeFieldPermissions fieldsToRemove content =
     foldl (\<lambda>acc field. foldl (\<lambda>acc1 pattern. applyPattern pattern acc1) acc
                          (fieldPermissionPatterns field))
       (content, 0) fieldsToRemove"

text \<open>
  \<^verbatim>\<open>processFile(filePath)\<close>: the number of removals it returns and the world it leaves. An
  exception anywhere (the read, the write) is caught and gives \<open>removed = 0\<close>.
\<close>

definition processFile :: "Platform \<Rightarrow> Env \<Rightarrow> string \<Rightarrow> string list \<Rightarrow> string \<Rightarrow> World \<Rightarrow> nat \<times> World" where
  "processFile pf env now fieldsToRemove filePath w =
     (case readFileSync filePath w of
        Inl e \<Rightarrow> (0, w)
      | Inr originalContent \<Rightarrow>
          if \<not> list_ex (\<lambda>f. includes' originalContent f) fieldsToRemove then (0, w)
          else
            let w1 = (if createBackupSetting env
                      then snd (createBackup pf env now filePath w) else w);
                (content, removed) = removeFieldPermissions fieldsToRemove originalContent
            in if content \<noteq> originalContent
               then (case writeFileSync pf filePath content w1 of
                       Inl e \<Rightarrow> (0, w1)
                     | Inr w2 \<Rightarrow> (removed, w2))
               else (removed, w1))"

subsection \<open>Page layouts: processLayouts\<close>

definition layoutItemRegex :: regex where
  "layoutItemRegex = RegExp (''<layoutItems>['' @ bs ''s'' @ bs ''S]*?<'' @ bs ''/layoutItems>'')"

definition blankLinesRegex :: regex where
  "blankLinesRegex = RegExp (bs ''n'' @ bs ''s*'' @ bs ''n'' @ bs ''s*'' @ bs ''n'')"

text \<open>\<^verbatim>\<open>content.replace(/\n\s*\n\s*\n/g, '\n\n')\<close>\<close>

definition collapseBlankLines :: "string \<Rightarrow> string" where
  "collapseBlankLines content = replaceAllWith blankLinesRegex (\<lambda>m. [CHR 0x0A, CHR 0x0A]) content"

text \<open>
  The replacer of \<^verbatim>\<open>processLayouts\<close>: a \<^verbatim>\<open>layoutItems\<close> block that the pattern
  \<^verbatim>\<open><field>escapeRegex(fieldName)</field>\<close> matches is replaced by the empty string and
  counted, any other block is kept.
\<close>

definition layoutReplacer :: "string \<Rightarrow> string \<Rightarrow> nat \<Rightarrow> string \<times> nat" where
  "layoutReplacer fieldName match removed =
     (if regexTest False (RegExp (''<field>'' @ escapeRegex fieldName @ ''</field>'')) match
      then ([], removed + 1) else (match, removed))"

definition removeLayoutBlocks :: "string \<Rightarrow> string \<times> nat \<Rightarrow> string \<times> nat" where
  "removeLayoutBlocks fieldName acc =
     replaceG False layoutItemRegex (layoutReplacer fieldName) (fst acc) (snd acc)"

text \<open>\<^verbatim>\<open>field.split('.')[1]\<close>, \<open>None\<close> for \<^verbatim>\<open>undefined\<close> (on which \<^verbatim>\<open>escapeRegex\<close>
  throws, and the \<^verbatim>\<open>catch\<close> of the file's \<^verbatim>\<open>try\<close> skips the file).\<close>

definition fieldNameOf :: "string \<Rightarrow> string option" where
  "fieldNameOf field = (case splitOn CHR ''.'' field of a # b # rest \<Rightarrow> Some b | _ \<Rightarrow> None)"

fun layoutFieldsLoop :: "string list \<Rightarrow> string \<times> nat \<Rightarrow> (string \<times> nat) option" where
  "layoutFieldsLoop [] acc = Some acc"
| "layoutFieldsLoop (field # fs) acc =
     (case fieldNameOf field of
        None \<Rightarrow> None
      | Some fieldName \<Rightarrow> layoutFieldsLoop fs (removeLayoutBlocks fieldName acc))"

text \<open>The new content of one layout file and the number of blocks removed from it.\<close>

definition processLayoutContent :: "string list \<Rightarrow> string \<Rightarrow> (string \<times> nat) option" where
  "processLayoutContent fieldsToRemove originalContent =
     (case layoutFieldsLoop fieldsToRemove (originalContent, 0) of
        None \<Rightarrow> None
      | Some (content, removed) \<Rightarrow> Some (collapseBlankLines content, removed))"

text \<open>
  The body of the loop of \<^verbatim>\<open>processLayouts\<close> for one file: the world it leaves, what it
  adds to \<^verbatim>\<open>totalRemoved\<close>, and whether the file is counted in \<^verbatim>\<open>filesModified\<close>.
\<close>

definition processLayoutFile :: "Platform \<Rightarrow> Env \<Rightarrow> string \<Rightarrow> string list \<Rightarrow> string \<Rightarrow> World
    \<Rightarrow> nat \<times> bool \<times> World" where
  "processLayoutFile pf env now fieldsToRemove filePath w =
     (case readFileSync filePath w of
        Inl e \<Rightarrow> (0, False, w)
      | Inr originalContent \<Rightarrow>
          (case processLayoutContent fieldsToRemove originalContent of
             None \<Rightarrow> (0, False, w)
           | Some (content, removed) \<Rightarrow>
               if content \<noteq> originalContent
               then
                 let w1 = (if createBackupSetting env
                           then snd (createBackup pf env now filePath w) else w)
                 in (case writeFileSync pf filePath content w1 of
                       Inl e \<Rightarrow> (0, False, w1)
                     | Inr w2 \<Rightarrow> (removed, True, w2))
               else (0, False, w)))"

subsection \<open>Page layouts: removeLayoutItems\<close>

definition layoutItemsPattern :: "string \<Rightarrow> string" where
  "layoutItemsPattern field =
     bs ''s*<layoutItems>['' @ bs ''s'' @ bs ''S]*?<field>'' @ escapeRegex field
       @ ''</field>['' @ bs ''s'' @ bs ''S]*?</layoutItems>''"

text \<open>The new content of one layout file under \<^verbatim>\<open>removeLayoutItems\<close> and the number of
  removals counted.\<close>

definition removeLayoutItemsContent :: "string list \<Rightarrow> string \<Rightarrow> string \<times> nat" where
  "removeLayoutItemsContent fs content =
     foldl (\<lambda>acc field. applyPattern (layoutItemsPattern field) acc) (content, 0) fs"


subsection \<open>Facts about the rewriters\<close>

lemma applyPatterns_none:
  "list_all (\<lambda>p. matchG False (RegExp p) (fst acc) = None) ps \<Longrightarrow>
   foldl (\<lambda>acc1 pattern. applyPattern pattern acc1) acc ps = acc"
  by (induction ps) (simp_all add: applyPattern_def)

section \<open>Lightning pages (FlexiPageCleaner)\<close>

text \<open>
  \<^verbatim>\<open>FlexiPageCleaner.execute\<close>, from the two input boxes and the answer to the
  confirmation to the arguments of \<^verbatim>\<open>processFlexiPages\<close>; \<open>None\<close> when the command
  returns before the call. The names are trimmed and nothing else.
\<close>

definition flexiExecute :: "string \<Rightarrow> string \<Rightarrow> bool \<Rightarrow> (string \<times> string list) option" where
  "flexiExecute objectName fieldsInput confirmed =
     (if objectName = [] then None
      else if fieldsInput = [] then None
      else
        let fs = filter (\<lambda>f. length f > 0) (map trim (splitOn CHR '','' fieldsInput))
        in if length fs = 0 then None
           else if \<not> confirmed then None
           else Some (objectName, fs))"

datatype warningType = VisibilityRuleType | FilterConditionType | ComponentFilterType

record VisibilityWarning =
  file' :: string
  field' :: string
  wtype :: warningType
  context' :: string








text \<open>The variables of the loop over the fields of one file, and of the run.\<close>

record FileState =
  content :: string
  removed :: nat
  visibilityWarnings :: "VisibilityWarning list"
  skippedFiles :: "string list"


definition fieldItemPatterns :: "string \<Rightarrow> string \<Rightarrow> string list" where
  "fieldItemPatterns objectName fieldName =
     [''<fieldItem>Record'' @ bs ''.'' @ escapeRegex fieldName @ ''</fieldItem>'',
      ''<fieldItem>'' @ escapeRegex fieldName @ ''</fieldItem>'',
      ''<fieldItem>'' @ escapeRegex (objectName @ ''.'' @ fieldName) @ ''</fieldItem>'']"













subsection \<open>Facts about the visibility check\<close>





section \<open>Claims\<close>

subsection \<open>C1\<close>








subsection \<open>C2\<close>

text \<open>
  C2 does not hold of the code. \<^verbatim>\<open>FieldRemover.execute\<close> passes the object name and
  every field name through \<^verbatim>\<open>sanitizeApiName\<close>, and drops \<^verbatim>\<open>"1Foo__c"\<close>; but
  \<^verbatim>\<open>FieldRemover.executeOnFile\<close> and \<^verbatim>\<open>FlexiPageCleaner.execute\<close> hand the names on as
  they were entered, and the rewriters build their patterns from them: here the name
  \<^verbatim>\<open>"1Foo__c"\<close>, which the sanitizer rejects, is in the patterns of \<^verbatim>\<open>processFile\<close> and
  of the FlexiPage replacer.
\<close>

theorem C2_unsanitized_name_reaches_patterns:
  "sanitizeApiName (JStr ''1Foo__c'') = None
   \<and> execute ''Account'' [''1Foo__c''] = None
   \<and> executeOnFile ''Account'' [''1Foo__c''] = Some (''Account'', [''Account.1Foo__c''])
   \<and> hd (fieldPermissionPatterns ''Account.1Foo__c'')
       = bs ''s*<fieldPermissions>'' @ bs ''s*<editable>(?:true|false)</editable>'' @ bs ''s*<field>Account''
         @ bs ''.1Foo__c</field>'' @ bs ''s*<readable>(?:true|false)</readable>''
         @ bs ''s*</fieldPermissions>''
   \<and> flexiExecute ''Account'' ''1Foo__c'' True = Some (''Account'', [''1Foo__c''])
   \<and> fieldItemPatterns ''Account'' ''1Foo__c'' ! 1 = ''<fieldItem>1Foo__c</fieldItem>''"
  by code_simp

subsection \<open>C3\<close>

text \<open>
  C3 does not hold of \<^verbatim>\<open>processFile\<close>, the rewriter of profiles and permission sets:
  it makes the backup as soon as the file includes one of the field names, before any
  pattern is tried. Here the file names the field outside a \<^verbatim>\<open>fieldPermissions\<close> block
  and backups are enabled: no pattern matches, nothing is removed, the file keeps its
  content, and a backup of it, which was not there before, has been made all the same.
\<close>

definition profilePath :: string where
  "profilePath = ''/ws/Admin.profile-meta.xml''"

definition profileContent :: string where
  "profileContent = ''<Profile><description>Case.Foo__c</description></Profile>''"

theorem C3_backup_without_change:
  "removeFieldPermissions [''Case.Foo__c''] profileContent = (profileContent, 0)
   \<and> fst (processFile toyPlatform sampleEnv ''2024-01-02T03:04:05.678Z'' [''Case.Foo__c''] profilePath
      (sampleWorld profilePath profileContent)) = 0
   \<and> files (snd (processFile toyPlatform sampleEnv ''2024-01-02T03:04:05.678Z'' [''Case.Foo__c'']
        profilePath (sampleWorld profilePath profileContent))) profilePath = Some profileContent
   \<and> files (sampleWorld profilePath profileContent)
        ''/ws/.cleanforce/backups/2024-01-02T03-04-05-678Z/Admin.profile-meta.xml'' = None
   \<and> files (snd (processFile toyPlatform sampleEnv ''2024-01-02T03:04:05.678Z'' [''Case.Foo__c'']
        profilePath (sampleWorld profilePath profileContent)))
        ''/ws/.cleanforce/backups/2024-01-02T03-04-05-678Z/Admin.profile-meta.xml''
       = Some profileContent"
proof -
  let ?w = "sampleWorld profilePath profileContent"
  let ?now = "''2024-01-02T03:04:05.678Z''"
  have rd: "readFileSync profilePath ?w = Inr profileContent"
    by (simp add: readFileSync_def sampleWorld_def profilePath_def)
  have inc: "list_ex (\<lambda>f. includes' profileContent f) [''Case.Foo__c'']"
    by code_simp
  have "list_all (\<lambda>p. matchG False (RegExp p) profileContent = None)
          (fieldPermissionPatterns ''Case.Foo__c'')"
    by code_simp
  then have rm: "removeFieldPermissions [''Case.Foo__c''] profileContent = (profileContent, 0)"
    by (simp add: removeFieldPermissions_def applyPatterns_none)
  have en: "createBackupSetting sampleEnv" by (simp add: sampleEnv_def)
  have pr: "processFile toyPlatform sampleEnv ?now [''Case.Foo__c''] profilePath ?w
      = (0, snd (createBackup toyPlatform sampleEnv ?now profilePath ?w))"
    using inc by (simp add: processFile_def rd rm en)
  have b0: "files ?w ''/ws/.cleanforce/backups/2024-01-02T03-04-05-678Z/Admin.profile-meta.xml'' = None"
    by (simp add: sampleWorld_def profilePath_def)
  have b1: "files (snd (createBackup toyPlatform sampleEnv ?now profilePath ?w))
      ''/ws/.cleanforce/backups/2024-01-02T03-04-05-678Z/Admin.profile-meta.xml'' = Some profileContent"
    by code_simp
  have b2: "files (snd (createBackup toyPlatform sampleEnv ?now profilePath ?w)) profilePath
      = Some profileContent"
    by code_simp
  show ?thesis by (simp add: rm pr b0 b1 b2)
qed

subsection \<open>C4\<close>

text \<open>
  C4. \<^verbatim>\<open>createBackup(path)\<close> followed at once by \<^verbatim>\<open>restoreBackup(path)\<close> leaves the
  file with the bytes it had, the empty content and any bytes included, and
  \<^verbatim>\<open>restoreBackup\<close> returns true, in the setting in which the two calls can do their work:
  a workspace folder is open; the path is not \<^verbatim>\<open>__proto__\<close>; the file exists and its
  directory too; the mapping file is absent or holds a JSON object \<open>m\<close>, and
  \<^verbatim>\<open>JSON.parse\<close> reads back the object that is written for it; the path of the copy is
  neither empty nor the mapping file; the file, the copy and the mapping file are no
  directories, nor among the directories to be made for the copy and for the mapping
  file; no file stands where one of these directories is to be made; and none of the
  paths written is refused.
\<close>

theorem C4_backup_restore_roundtrip:
  assumes ws: "workspaceFolder env = Some ws"
    and present: "files w filePath = Some bytes"
    and fdir: "pathDirname pf filePath \<in> set (dirs w)"
    and key: "filePath \<noteq> ''__proto__''"
    and mapping: "files w (mappingFileOf pf env ws) = None \<and> m = []
        \<or> (\<exists>x. files w (mappingFileOf pf env ws) = Some x \<and> jsonParse pf x = Some (JObject m))"
    and reparse: "jsonParse pf (jsonStringify pf
           (JObject (setOwn filePath (JString (backupPathOf pf env ws now filePath)) m)))
         = Some (JObject (setOwn filePath (JString (backupPathOf pf env ws now filePath)) m))"
    and ne: "backupPathOf pf env ws now filePath \<noteq> mappingFileOf pf env ws"
    and nempty: "backupPathOf pf env ws now filePath \<noteq> []"
    and nodir: "set [filePath, backupPathOf pf env ws now filePath, mappingFileOf pf env ws]
         \<inter> set (dirs w @ dirsNeeded pf env ws now filePath) = {}"
    and free: "list_all (\<lambda>p. p \<in> set (dirs w) \<or> files w p = None)
         (dirsNeeded pf env ws now filePath)"
    and writable: "set (unwritable w)
         \<inter> set ([filePath, backupPathOf pf env ws now filePath, mappingFileOf pf env ws]
                @ dirsNeeded pf env ws now filePath) = {}"
  shows "fst (createBackup pf env now filePath w) = Some (backupPathOf pf env ws now filePath)
       \<and> fst (restoreBackup pf env filePath (snd (createBackup pf env now filePath w))) = True
       \<and> files (snd (restoreBackup pf env filePath (snd (createBackup pf env now filePath w)))) filePath
           = Some bytes"
proof -
  let ?bp = "backupPathOf pf env ws now filePath"
  let ?mf = "mappingFileOf pf env ws"
  let ?bd = "pathDirname pf ?bp"
  let ?md = "pathDirname pf ?mf"
  let ?w0 = "w\<lparr>backupFolder := backupFolderOf env\<rparr>"
  let ?m1 = "setOwn filePath (JString ?bp) m"
  let ?ok = "\<lambda>v. list_all (\<lambda>p. p \<in> set (dirs v) \<or> files v p = None \<and> p \<notin> set (unwritable v))"
  have needed: "set (dirsNeeded pf env ws now filePath)
      = set (ancestors pf (length ?bd) ?bd) \<union> set (ancestors pf (length ?md) ?md)"
    by (simp add: dirsNeeded_def chain_def)
  have nd: "filePath \<notin> set (dirs w)" "?bp \<notin> set (dirs w)" "?mf \<notin> set (dirs w)"
    "filePath \<notin> set (dirsNeeded pf env ws now filePath)"
    "?bp \<notin> set (dirsNeeded pf env ws now filePath)"
    "?mf \<notin> set (dirsNeeded pf env ws now filePath)"
    using nodir by auto
  have uw: "filePath \<notin> set (unwritable w)" "?bp \<notin> set (unwritable w)" "?mf \<notin> set (unwritable w)"
    "\<And>p. p \<in> set (dirsNeeded pf env ws now filePath) \<Longrightarrow> p \<notin> set (unwritable w)"
    using writable by auto
  have fr: "\<And>p. p \<in> set (dirsNeeded pf env ws now filePath) \<Longrightarrow> p \<in> set (dirs w) \<or> files w p = None"
    using free by (simp add: list_all_iff)
  \<comment> \<open>the directory of the copy\<close>
  define w1 where "w1 = snd (ensureDir pf ?bd ?w0)"
  have "?ok ?w0 (ancestors pf (length ?bd) ?bd)"
    using fr uw(4) needed by (auto simp: list_all_iff)
  note e1 = ensureDir_ok [OF this, folded w1_def]
  have e1': "ensureDir pf ?bd ?w0 = (None, w1)"
    using e1 by (simp add: w1_def prod_eq_iff)
  have w1: "files w1 = files w" "unwritable w1 = unwritable w" "backupFolder w1 = backupFolderOf env"
    "?bd \<in> set (dirs w1)" "set (dirs w) \<subseteq> set (dirs w1)"
    "set (dirs w1) \<subseteq> set (dirs w) \<union> set (dirsNeeded pf env ws now filePath)"
    using e1 needed by auto
  \<comment> \<open>the copy\<close>
  define w2 where "w2 = w1\<lparr>files := (files w1)(?bp \<mapsto> bytes)\<rparr>"
  have d1: "filePath \<notin> set (dirs w1)" "?bp \<notin> set (dirs w1)" "?mf \<notin> set (dirs w1)"
    using w1(6) nd by auto
  have copy: "copyFileSync pf filePath ?bp w1 = Inr w2"
    using d1 w1 present uw
    by (simp add: copyFileSync_def readFileSync_def writeFileSync_def w2_def)
  have cb: "createBackup pf env now filePath w = (Some ?bp, storeBackupMapping pf env filePath ?bp w2)"
    by (rule createBackup_copied [OF ws e1' copy])
  \<comment> \<open>the mapping file\<close>
  have mfp2: "mappingFilePath pf ws w2 = ?mf"
    by (simp add: mappingFilePath_def mappingFileOf_def w2_def w1)
  have f2: "files w2 ?mf = files w ?mf" "files w2 ?bp = Some bytes"
    using ne by (simp_all add: w2_def w1)
  have ld: "(if existsSync ?mf w2
             then (case readFileSync ?mf w2 of Inl e \<Rightarrow> None | Inr x \<Rightarrow> jsonParse pf x)
             else Some (JObject [])) = Some (JObject m)"
    using mapping d1 f2 by (auto simp: existsSync_def readFileSync_def w2_def)
  define w3 where "w3 = snd (ensureDir pf ?md w2)"
  have "?ok w2 (ancestors pf (length ?md) ?md)"
  proof -
    have "p \<in> set (dirs w2) \<or> files w2 p = None \<and> p \<notin> set (unwritable w2)"
      if "p \<in> set (ancestors pf (length ?md) ?md)" for p
    proof -
      from that needed have p: "p \<in> set (dirsNeeded pf env ws now filePath)" by simp
      with nd have "p \<noteq> ?bp" by auto
      with fr [OF p] uw(4) [OF p] w1 show ?thesis by (auto simp: w2_def)
    qed
    then show ?thesis by (simp add: list_all_iff)
  qed
  note e3 = ensureDir_ok [OF this, folded w3_def]
  have e3': "ensureDir pf ?md w2 = (None, w3)"
    using e3 by (simp add: w3_def prod_eq_iff)
  have w3: "files w3 = files w2" "unwritable w3 = unwritable w" "backupFolder w3 = backupFolderOf env"
    "?md \<in> set (dirs w3)" "set (dirs w) \<subseteq> set (dirs w3)"
    "set (dirs w3) \<subseteq> set (dirs w) \<union> set (dirsNeeded pf env ws now filePath)"
    using e3 needed w1 by (auto simp: w2_def)
  have d3: "filePath \<notin> set (dirs w3)" "?bp \<notin> set (dirs w3)" "?mf \<notin> set (dirs w3)"
    using w3(6) nd by auto
  define w4 where "w4 = w3\<lparr>files := (files w3)(?mf \<mapsto> jsonStringify pf (JObject ?m1))\<rparr>"
  have wr: "writeFileSync pf ?mf (jsonStringify pf (JObject ?m1)) w3 = Inr w4"
    using d3 w3 uw by (simp add: writeFileSync_def w4_def)
  have st: "storeBackupMapping pf env filePath ?bp w2 = w4"
    unfolding storeBackupMapping_def
    by (simp add: ws Let_def mfp2 ld assignMember_def e3' wr)
  \<comment> \<open>the restore\<close>
  have mfp4: "mappingFilePath pf ws w4 = ?mf"
    by (simp add: mappingFilePath_def mappingFileOf_def w4_def w3)
  have f4: "files w4 ?mf = Some (jsonStringify pf (JObject ?m1))" "files w4 ?bp = Some bytes"
    using ne f2 by (simp_all add: w4_def w3)
  have d4: "filePath \<notin> set (dirs w4)" "?bp \<notin> set (dirs w4)" "?mf \<notin> set (dirs w4)"
    "pathDirname pf filePath \<in> set (dirs w4)" "filePath \<notin> set (unwritable w4)"
    using d3 w3 fdir uw by (auto simp: w4_def)
  have gm: "getMember (JObject ?m1) filePath = Inr (Some (JString ?bp))"
    using key by (simp add: getMember_def map_of_setOwn)
  have gb: "getBackupPath pf env filePath w4 = Some (JString ?bp)"
    unfolding getBackupPath_def
    using d4 f4 by (simp add: ws Let_def mfp4 existsSync_def readFileSync_def reparse gm)
  have rb: "restoreBackup pf env filePath w4 = (True, w4\<lparr>files := (files w4)(filePath \<mapsto> bytes)\<rparr>)"
    unfolding restoreBackup_def
    using d4 f4 nempty
    by (simp add: gb existsSync_def copyFileSync_def readFileSync_def writeFileSync_def)
  show ?thesis by (simp add: cb st rb)
qed

text \<open>
  A world for the small platform: the file \<^verbatim>\<open>/ws/a.xml\<close>, empty, and a mapping file that
  holds the backup of another file.
\<close>

definition backedUpWorld :: World where
  "backedUpWorld = \<lparr>files = [''/ws/a.xml'' \<mapsto> [],
       ''/ws/.cleanforce/backups/backup-mapping.json'' \<mapsto>
          toyStringify (JObject [(''/ws/b.xml'', JString ''/ws/.cleanforce/backups/old/b.xml'')])],
     dirs = [''/'', ''/ws'', ''/ws/.cleanforce'', ''/ws/.cleanforce/backups''],
     unwritable = [], backupFolder = ''.cleanforce/backups''\<rparr>"

theorem C4_backup_restore_roundtrip_witness:
  "fst (createBackup toyPlatform sampleEnv ''2024-01-02T03:04:05.678Z'' ''/ws/a.xml'' backedUpWorld)
     = Some ''/ws/.cleanforce/backups/2024-01-02T03-04-05-678Z/a.xml''
   \<and> fst (restoreBackup toyPlatform sampleEnv ''/ws/a.xml''
      (snd (createBackup toyPlatform sampleEnv ''2024-01-02T03:04:05.678Z'' ''/ws/a.xml''
         backedUpWorld))) = True
   \<and> files (snd (restoreBackup toyPlatform sampleEnv ''/ws/a.xml''
      (snd (createBackup toyPlatform sampleEnv ''2024-01-02T03:04:05.678Z'' ''/ws/a.xml''
         backedUpWorld)))) ''/ws/a.xml'' = Some []"
proof -
  let ?now = "''2024-01-02T03:04:05.678Z''"
  let ?bp = "''/ws/.cleanforce/backups/2024-01-02T03-04-05-678Z/a.xml''"
  let ?mf = "''/ws/.cleanforce/backups/backup-mapping.json''"
  let ?m = "[(''/ws/b.xml'', JString ''/ws/.cleanforce/backups/old/b.xml'')]"
  have bp: "backupPathOf toyPlatform sampleEnv ''/ws'' ?now ''/ws/a.xml'' = ?bp"
    by code_simp
  have mf: "mappingFileOf toyPlatform sampleEnv ''/ws'' = ?mf"
    by code_simp
  have dn: "dirsNeeded toyPlatform sampleEnv ''/ws'' ?now ''/ws/a.xml''
      = [''/ws/.cleanforce/backups/2024-01-02T03-04-05-678Z'', ''/ws/.cleanforce/backups'',
         ''/ws/.cleanforce'', ''/ws'', ''/'',
         ''/ws/.cleanforce/backups'', ''/ws/.cleanforce'', ''/ws'', ''/'']"
    by code_simp
  have h1: "workspaceFolder sampleEnv = Some ''/ws''" by (simp add: sampleEnv_def)
  have h2: "files backedUpWorld ''/ws/a.xml'' = Some []" by (simp add: backedUpWorld_def)
  have h3: "pathDirname toyPlatform ''/ws/a.xml'' \<in> set (dirs backedUpWorld)" by code_simp
  have h4: "''/ws/a.xml'' \<noteq> ''__proto__''" by simp
  have p: "jsonParse toyPlatform (toyStringify (JObject ?m)) = Some (JObject ?m)" by code_simp
  have h5: "files backedUpWorld ?mf = None \<and> ?m = []
      \<or> (\<exists>x. files backedUpWorld ?mf = Some x \<and> jsonParse toyPlatform x = Some (JObject ?m))"
    using p by (simp add: backedUpWorld_def)
  have h6: "jsonParse toyPlatform (jsonStringify toyPlatform
        (JObject (setOwn ''/ws/a.xml'' (JString ?bp) ?m)))
      = Some (JObject (setOwn ''/ws/a.xml'' (JString ?bp) ?m))"
    by code_simp
  have h7: "?bp \<noteq> ?mf" by simp
  have h8: "?bp \<noteq> []" by simp
  have h9: "set [''/ws/a.xml'', ?bp, ?mf] \<inter> set (dirs backedUpWorld
        @ dirsNeeded toyPlatform sampleEnv ''/ws'' ?now ''/ws/a.xml'') = {}"
    unfolding dn by (simp add: backedUpWorld_def)
  have h10: "list_all (\<lambda>p. p \<in> set (dirs backedUpWorld) \<or> files backedUpWorld p = None)
        (dirsNeeded toyPlatform sampleEnv ''/ws'' ?now ''/ws/a.xml'')"
    unfolding dn by (simp add: backedUpWorld_def)
  have h11: "set (unwritable backedUpWorld) \<inter> set ([''/ws/a.xml'', ?bp, ?mf]
        @ dirsNeeded toyPlatform sampleEnv ''/ws'' ?now ''/ws/a.xml'') = {}"
    by (simp add: backedUpWorld_def)
  show ?thesis
    using C4_backup_restore_roundtrip [of sampleEnv "''/ws''" backedUpWorld "''/ws/a.xml''" "[]"
        toyPlatform ?m ?now, unfolded bp mf, OF h1 h2 h3 h4 h5 h6 h7 h8 h9 [unfolded bp mf]
        h10 h11 [unfolded bp mf]]
    by simp
qed

text \<open>
  Outside that setting \<^verbatim>\<open>restoreBackup\<close> returns false after \<^verbatim>\<open>createBackup\<close>: with no
  workspace folder open; with a mapping file that does not parse (here the text \<^verbatim>\<open>{\<close>);
  and for the file \<^verbatim>\<open>__proto__\<close>, for which no member is written to the mapping file.
\<close>

definition corruptWorld :: World where
  "corruptWorld = \<lparr>files = [''/ws/a.xml'' \<mapsto> ''<a/>'',
       ''/ws/.cleanforce/backups/backup-mapping.json'' \<mapsto> ''{''],
     dirs = [''/'', ''/ws'', ''/ws/.cleanforce'', ''/ws/.cleanforce/backups''],
     unwritable = [], backupFolder = ''.cleanforce/backups''\<rparr>"

definition protoWorld :: World where
  "protoWorld = \<lparr>files = [''__proto__'' \<mapsto> ''<a/>''], dirs = [''/'', ''/ws'', ''.''],
     unwritable = [], backupFolder = ''.cleanforce/backups''\<rparr>"

theorem C4_counterexample:
  "fst (restoreBackup toyPlatform (sampleEnv\<lparr>workspaceFolder := None\<rparr>) ''/ws/a.xml''
      (snd (createBackup toyPlatform (sampleEnv\<lparr>workspaceFolder := None\<rparr>)
         ''2024-01-02T03:04:05.678Z'' ''/ws/a.xml'' (sampleWorld ''/ws/a.xml'' ''<a/>'')))) = False
   \<and> fst (createBackup toyPlatform sampleEnv ''2024-01-02T03:04:05.678Z'' ''/ws/a.xml'' corruptWorld)
       = Some ''/ws/.cleanforce/backups/2024-01-02T03-04-05-678Z/a.xml''
   \<and> fst (restoreBackup toyPlatform sampleEnv ''/ws/a.xml''
      (snd (createBackup toyPlatform sampleEnv ''2024-01-02T03:04:05.678Z'' ''/ws/a.xml''
         corruptWorld))) = False
   \<and> fst (createBackup toyPlatform sampleEnv ''2024-01-02T03:04:05.678Z'' ''__proto__'' protoWorld)
       = Some ''/ws/.cleanforce/backups/2024-01-02T03-04-05-678Z/__proto__''
   \<and> files (snd (createBackup toyPlatform sampleEnv ''2024-01-02T03:04:05.678Z'' ''__proto__''
         protoWorld)) ''/ws/.cleanforce/backups/backup-mapping.json'' = Some ''{}''
   \<and> fst (restoreBackup toyPlatform sampleEnv ''__proto__''
      (snd (createBackup toyPlatform sampleEnv ''2024-01-02T03:04:05.678Z'' ''__proto__''
         protoWorld))) = False"
proof -
  have a: "fst (restoreBackup toyPlatform (sampleEnv\<lparr>workspaceFolder := None\<rparr>) ''/ws/a.xml''
      (snd (createBackup toyPlatform (sampleEnv\<lparr>workspaceFolder := None\<rparr>)
         ''2024-01-02T03:04:05.678Z'' ''/ws/a.xml'' (sampleWorld ''/ws/a.xml'' ''<a/>'')))) = False"
    by (simp add: restoreBackup_def getBackupPath_def createBackup_def sampleEnv_def)
  have b: "fst (createBackup toyPlatform sampleEnv ''2024-01-02T03:04:05.678Z'' ''/ws/a.xml'' corruptWorld)
       = Some ''/ws/.cleanforce/backups/2024-01-02T03-04-05-678Z/a.xml''"
    by code_simp
  have c: "fst (restoreBackup toyPlatform sampleEnv ''/ws/a.xml''
      (snd (createBackup toyPlatform sampleEnv ''2024-01-02T03:04:05.678Z'' ''/ws/a.xml''
         corruptWorld))) = False"
    by code_simp
  have d: "fst (createBackup toyPlatform sampleEnv ''2024-01-02T03:04:05.678Z'' ''__proto__'' protoWorld)
       = Some ''/ws/.cleanforce/backups/2024-01-02T03-04-05-678Z/__proto__''"
    by code_simp
  have e: "files (snd (createBackup toyPlatform sampleEnv ''2024-01-02T03:04:05.678Z'' ''__proto__''
         protoWorld)) ''/ws/.cleanforce/backups/backup-mapping.json'' = Some ''{}''"
    by code_simp
  have f: "fst (restoreBackup toyPlatform sampleEnv ''__proto__''
      (snd (createBackup toyPlatform sampleEnv ''2024-01-02T03:04:05.678Z'' ''__proto__''
         protoWorld))) = False"
    by code_simp
  show ?thesis using a b c d e f by blast
qed

subsection \<open>C5\<close>

text \<open>
  C5 does not hold of \<^verbatim>\<open>removeLayoutItems\<close>: its pattern runs from a \<^verbatim>\<open><layoutItems>\<close>
  to the first \<^verbatim>\<open><field>Name__c</field>\<close> after it, across the end of the block it began
  in. With the target \<^verbatim>\<open>Name__c\<close>, the block that holds only
  \<^verbatim>\<open><field>Other_Name__c</field>\<close> is deleted together with the block of the target, as
  one match. \<^verbatim>\<open>processLayouts\<close> tests each block by itself and keeps it.
\<close>

definition twoLayoutItems :: string where
  "twoLayoutItems = ''<Layout><layoutItems><field>Other_Name__c</field></layoutItems>''
     @ ''<layoutItems><field>Name__c</field></layoutItems></Layout>''"

theorem C5_other_block_removed:
  "removeLayoutItemsContent [''Name__c''] twoLayoutItems = (''<Layout></Layout>'', 1)
   \<and> processLayoutContent [''Account.Name__c''] twoLayoutItems
       = Some (''<Layout><layoutItems><field>Other_Name__c</field></layoutItems></Layout>'', 1)"
proof -
  have a: "removeLayoutItemsContent [''Name__c''] twoLayoutItems = (''<Layout></Layout>'', 1)"
    by code_simp
  have b: "processLayoutContent [''Account.Name__c''] twoLayoutItems
       = Some (''<Layout><layoutItems><field>Other_Name__c</field></layoutItems></Layout>'', 1)"
    by code_simp
  show ?thesis using a b by simp
qed

subsection \<open>C9\<close>

text \<open>
  C9. When the history has a head entry with a \<^verbatim>\<open>filesModified\<close> list and the user
  confirms, \<^verbatim>\<open>undoLast\<close> calls \<^verbatim>\<open>restoreBackup\<close> for every path of the list, in order,
  then removes the head entry from the history and returns true. A restore that fails
  changes nothing: the restores after it are made as they would have been without it
  (each on the world the one before left), and the head entry is removed all the same.
\<close>

theorem C9_undoLast_restores_all:
  assumes "getHistory st = e # rest"
    and "filesModified (details e) = Some ps"
  shows "fst (undoLast pf env True st w) = True
       \<and> map fst (fst (snd (undoLast pf env True st w))) = ps
       \<and> getHistory (fst (snd (snd (undoLast pf env True st w)))) = rest
       \<and> (fst (snd (undoLast pf env True st w)), snd (snd (snd (undoLast pf env True st w))))
           = restoreAll pf env ps w
       \<and> (\<forall>qs p rs. ps = qs @ p # rs \<longrightarrow>
            restoreAll pf env ps w =
              (let (c1, w1) = restoreAll pf env qs w;
                   (ok, w2) = restoreBackup pf env p w1;
                   (c2, w3) = restoreAll pf env rs w2
               in (c1 @ (p, ok) # c2, w3)))
       \<and> (\<forall>p w1. fst (restoreBackup pf env p w1) = False \<longrightarrow> snd (restoreBackup pf env p w1) = w1)"
proof -
  have u: "undoLast pf env True st w
      = (True, fst (restoreAll pf env ps w), saveHistory rest st, snd (restoreAll pf env ps w))"
    using assms by (simp add: undoLast_def getLastEntry_def Let_def split: prod.splits)
  have ap: "\<forall>qs p rs. ps = qs @ p # rs \<longrightarrow>
            restoreAll pf env ps w =
              (let (c1, w1) = restoreAll pf env qs w;
                   (ok, w2) = restoreBackup pf env p w1;
                   (c2, w3) = restoreAll pf env rs w2
               in (c1 @ (p, ok) # c2, w3))"
    by (auto simp: restoreAll_append Let_def case_prod_beta)
  have fl: "\<forall>p w1. fst (restoreBackup pf env p w1) = False \<longrightarrow> snd (restoreBackup pf env p w1) = w1"
    by (simp add: restoreBackup_failed)
  show ?thesis using ap fl by (simp add: u restoreAll_calls)
qed

definition undoEntry :: HistoryEntry where
  "undoEntry = \<lparr>id' = Some ''1'', type' = REMOVE_FIELD_REFERENCES, timestamp = 0,
     details = emptyDetails\<lparr>filesModified := Some [''/ws/missing.xml'', ''/ws/a.xml'']\<rparr>\<rparr>"

definition undoWorld :: World where
  "undoWorld = \<lparr>files = [''/ws/a.xml'' \<mapsto> ''new'', ''/ws/b/a.xml'' \<mapsto> ''old'',
       ''/ws/.cleanforce/backups/backup-mapping.json'' \<mapsto>
          toyStringify (JObject [(''/ws/a.xml'', JString ''/ws/b/a.xml'')])],
     dirs = [''/'', ''/ws'', ''/ws/b'', ''/ws/.cleanforce'', ''/ws/.cleanforce/backups''],
     unwritable = [], backupFolder = ''.cleanforce/backups''\<rparr>"

theorem C9_undoLast_restores_all_witness:
  "fst (undoLast toyPlatform sampleEnv True
      \<lparr>globalState = Some [undoEntry, sampleEntry 0], maxHistoryItems = None\<rparr> undoWorld) = True
   \<and> fst (snd (undoLast toyPlatform sampleEnv True
      \<lparr>globalState = Some [undoEntry, sampleEntry 0], maxHistoryItems = None\<rparr> undoWorld))
       = [(''/ws/missing.xml'', False), (''/ws/a.xml'', True)]
   \<and> getHistory (fst (snd (snd (undoLast toyPlatform sampleEnv True
      \<lparr>globalState = Some [undoEntry, sampleEntry 0], maxHistoryItems = None\<rparr> undoWorld))))
       = [sampleEntry 0]
   \<and> files (snd (snd (snd (undoLast toyPlatform sampleEnv True
      \<lparr>globalState = Some [undoEntry, sampleEntry 0], maxHistoryItems = None\<rparr> undoWorld))))
       ''/ws/a.xml'' = Some ''old''"
proof -
  let ?st = "\<lparr>globalState = Some [undoEntry, sampleEntry 0], maxHistoryItems = None\<rparr>"
  have h: "getHistory ?st = undoEntry # [sampleEntry 0]" by (simp add: getHistory_id)
  have f: "filesModified (details undoEntry) = Some [''/ws/missing.xml'', ''/ws/a.xml'']"
    by (simp add: undoEntry_def)
  have p: "toyParse (toyStringify (JObject [(''/ws/a.xml'', JString ''/ws/b/a.xml'')]))
      = Some (JObject [(''/ws/a.xml'', JString ''/ws/b/a.xml'')])"
    by code_simp
  have d: "toyDirname ''/ws/a.xml'' = ''/ws''" by code_simp
  have r: "restoreAll toyPlatform sampleEnv [''/ws/missing.xml'', ''/ws/a.xml''] undoWorld
      = ([(''/ws/missing.xml'', False), (''/ws/a.xml'', True)],
         undoWorld\<lparr>files := (files undoWorld)(''/ws/a.xml'' \<mapsto> ''old'')\<rparr>)"
    by (simp add: restoreBackup_def getBackupPath_def getMember_def Let_def sampleEnv_def
        undoWorld_def mappingFilePath_def toyPlatform_def existsSync_def readFileSync_def
        copyFileSync_def writeFileSync_def p d)
  from C9_undoLast_restores_all [OF h f, of toyPlatform sampleEnv undoWorld, unfolded r]
  have "fst (undoLast toyPlatform sampleEnv True ?st undoWorld) = True"
    and "getHistory (fst (snd (snd (undoLast toyPlatform sampleEnv True ?st undoWorld)))) = [sampleEntry 0]"
    and "(fst (snd (undoLast toyPlatform sampleEnv True ?st undoWorld)),
          snd (snd (snd (undoLast toyPlatform sampleEnv True ?st undoWorld))))
           = ([(''/ws/missing.xml'', False), (''/ws/a.xml'', True)],
              undoWorld\<lparr>files := (files undoWorld)(''/ws/a.xml'' \<mapsto> ''old'')\<rparr>)"
    by blast+
  then show ?thesis by simp
qed

subsection \<open>C7\<close>

text \<open>
  C7 (as amended). \<^verbatim>\<open>sanitizeApiName\<close> rejects a value that is not a string, the empty
  string, \<^verbatim>\<open>"123Field"\<close> and \<^verbatim>\<open>"Field Name"\<close>, and accepts \<^verbatim>\<open>"Account"\<close> and
  \<^verbatim>\<open>"Custom_Field__c"\<close> unchanged. In general it trims the white space around the name
  and returns the trimmed name exactly when that is a letter followed by letters, digits
  and underscores (which covers the optional double-underscore suffix) and has at most 80
  characters; so it rejects every string whose trimmed form is longer than 80 characters,
  in particular every string of length 90 that has no white space at either end.
\<close>

theorem C7_sanitize:
  "sanitizeApiName JNotString = None
   \<and> sanitizeApiName (JStr []) = None
   \<and> sanitizeApiName (JStr ''123Field'') = None
   \<and> sanitizeApiName (JStr ''Field Name'') = None
   \<and> sanitizeApiName (JStr ''Account'') = Some ''Account''
   \<and> sanitizeApiName (JStr ''Custom_Field__c'') = Some ''Custom_Field__c''
   \<and> (\<forall>s. sanitizeApiName (JStr s)
          = (if apiNameShape (trim s) \<and> length (trim s) \<le> 80 then Some (trim s) else None))
   \<and> (\<forall>s. 80 < length (trim s) \<longrightarrow> sanitizeApiName (JStr s) = None)
   \<and> (\<forall>s. length s = 90 \<and> trim s = s \<longrightarrow> sanitizeApiName (JStr s) = None)"
proof -
  have gen: "sanitizeApiName (JStr s)
      = (if apiNameShape (trim s) \<and> length (trim s) \<le> 80 then Some (trim s) else None)" for s
  proof (cases "s = []")
    case True
    then show ?thesis by (simp add: sanitizeApiName_def trim_def apiNameShape_def)
  next
    case False
    then show ?thesis
      by (auto simp: sanitizeApiName_def Let_def validPattern_shape apiNameShape_def)
  qed
  have a: "sanitizeApiName JNotString = None" by (simp add: sanitizeApiName_def)
  have b: "sanitizeApiName (JStr []) = None" by (simp add: sanitizeApiName_def)
  have c: "sanitizeApiName (JStr ''123Field'') = None" by code_simp
  have d: "sanitizeApiName (JStr ''Field Name'') = None" by code_simp
  have e: "sanitizeApiName (JStr ''Account'') = Some ''Account''" by code_simp
  have f: "sanitizeApiName (JStr ''Custom_Field__c'') = Some ''Custom_Field__c''" by code_simp
  have g: "\<forall>s. 80 < length (trim s) \<longrightarrow> sanitizeApiName (JStr s) = None" by (simp add: gen)
  have h: "\<forall>s. length s = 90 \<and> trim s = s \<longrightarrow> sanitizeApiName (JStr s) = None"
    by (simp add: gen)
  show ?thesis using gen a b c d e f g h by blast
qed

theorem C7_sanitize_witness:
  "sanitizeApiName (JStr (replicate 90 CHR ''a'')) = None
   \<and> sanitizeApiName (JStr ('' '' @ replicate 81 CHR ''a'' @ '' '')) = None"
proof -
  have a: "length (replicate 90 CHR ''a'') = 90 \<and> trim (replicate 90 CHR ''a'') = replicate 90 CHR ''a''"
    by code_simp
  have b: "80 < length (trim ('' '' @ replicate 81 CHR ''a'' @ '' ''))"
    by code_simp
  show ?thesis using C7_sanitize a b by blast
qed

text \<open>
  C7 as stated fails: not every string of length 90 is rejected. Ten spaces followed by
  eighty letters make a string of length 90 that is accepted (as its trimmed form).
\<close>

theorem C7_counterexample:
  "\<not> (\<forall>s. length s = 90 \<longrightarrow> sanitizeApiName (JStr s) = None)"
proof
  assume "\<forall>s. length s = 90 \<longrightarrow> sanitizeApiName (JStr s) = None"
  moreover have "length (replicate 10 CHR '' '' @ replicate 80 CHR ''a'') = 90" by simp
  ultimately have "sanitizeApiName (JStr (replicate 10 CHR '' '' @ replicate 80 CHR ''a'')) = None"
    by blast
  moreover have "sanitizeApiName (JStr (replicate 10 CHR '' '' @ replicate 80 CHR ''a''))
      = Some (replicate 80 CHR ''a'')"
    by code_simp
  ultimately show False by simp
qed

subsection \<open>C8\<close>

text \<open>
  C8 (as amended). For every starting history and every configured \<^verbatim>\<open>maxHistoryItems\<close>
  \<open>m \<ge> 1\<close>: every \<^verbatim>\<open>addEntry\<close> leaves the new entry at the head, followed by the old
  history in its order, cut to \<open>m\<close> entries, so the length never exceeds \<open>m\<close>; and after
  \<open>m + 5\<close> calls of \<^verbatim>\<open>addEntry\<close> the length is exactly \<open>m\<close> and the head is the entry
  added last. (A configured 0 is falsy in \<^verbatim>\<open>|| 50\<close> and stands for the default 50.)
\<close>

theorem C8_history_truncation:
  assumes "maxHistoryItems st = Some m" and "1 \<le> m" and "length es = nat m + 5"
  shows "getHistory (addEntry i e st) = take (nat m) (e\<lparr>id' := Some i\<rparr> # getHistory st)
       \<and> length (getHistory (addEntry i e st)) \<le> nat m
       \<and> length (getHistory (addEntries es st)) = nat m
       \<and> hd (getHistory (addEntries es st)) = (snd (last es))\<lparr>id' := Some (fst (last es))\<rparr>"
proof -
  have mi: "maxItems st = m" using assms by (simp add: maxItems_def)
  then have pos: "0 < maxItems st" using assms by simp
  have ne: "es \<noteq> []" using assms(3) by auto
  have a: "getHistory (addEntry i e st) = take (nat m) (e\<lparr>id' := Some i\<rparr> # getHistory st)"
    using getHistory_addEntry_pos [OF pos] mi by simp
  then have b: "length (getHistory (addEntry i e st)) \<le> nat m" by simp
  have c: "length (getHistory (addEntries es st)) = nat m"
    using length_addEntries_pos [OF pos, of es] assms(3) mi ne by simp
  have d: "hd (getHistory (addEntries es st)) = (snd (last es))\<lparr>id' := Some (fst (last es))\<rparr>"
    using hd_addEntries_pos [OF pos ne] by simp
  show ?thesis using a b c d by blast
qed

theorem C8_history_truncation_witness:
  "length (getHistory (addEntries (map (\<lambda>k. (''id'', sampleEntry k)) [1, 2, 3, 4, 5, 6, 7])
      \<lparr>globalState = Some [sampleEntry 0, sampleEntry 0, sampleEntry 0], maxHistoryItems = Some 2\<rparr>)) = 2
   \<and> hd (getHistory (addEntries (map (\<lambda>k. (''id'', sampleEntry k)) [1, 2, 3, 4, 5, 6, 7])
      \<lparr>globalState = Some [sampleEntry 0, sampleEntry 0, sampleEntry 0], maxHistoryItems = Some 2\<rparr>))
       = (sampleEntry 7)\<lparr>id' := Some ''id''\<rparr>"
  using C8_history_truncation [of
      "\<lparr>globalState = Some [sampleEntry 0, sampleEntry 0, sampleEntry 0], maxHistoryItems = Some 2\<rparr>"
      2 "map (\<lambda>k. (''id'', sampleEntry k)) [1, 2, 3, 4, 5, 6, 7]"]
  by simp

text \<open>
  C8 as stated fails for the configured maximum 0: five entries added to an empty history
  leave five entries, not zero.
\<close>

theorem C8_counterexample:
  "length (getHistory (addEntries (map (\<lambda>k. (''id'', sampleEntry k)) [1, 2, 3, 4, 5])
      \<lparr>globalState = None, maxHistoryItems = Some 0\<rparr>)) \<noteq> nat 0"
  by (simp add: addEntry_def getHistory_def saveHistory_def maxItems_def splice_def Let_def)

subsection \<open>C10\<close>

text \<open>
  C10. For every string \<open>s\<close>, \<^verbatim>\<open>escapeRegex(s)\<close> puts a backslash before each of the
  metacharacters \<^verbatim>\<open>. * + ? ^ $ { } ( ) | [ ] \\<close> and is read by \<^verbatim>\<open>new RegExp\<close> as the
  sequence of the characters of \<open>s\<close>: the regular expression matches a text \<open>t\<close> at a
  position \<open>i\<close> exactly when \<open>s\<close> stands in \<open>t\<close> at \<open>i\<close>, and the match is \<open>s\<close> itself.
  The same holds with literal text around it, as in the rewriter patterns
  \<^verbatim>\<open><tag>escapeRegex(name)</tag>\<close>: \<^verbatim>\<open>test\<close> on such a pattern is the test that the text
  includes \<^verbatim>\<open><tag>name</tag>\<close>.
\<close>

theorem C10_escapeRegex_literal:
  assumes "noMeta pre" and "noMeta post"
  shows "escapeRegex s = concat (map escapeChar s)
       \<and> parseRegex (pre @ escapeRegex s @ post) = Some (mkSeq (map Chr (pre @ s @ post)))
       \<and> (\<forall>t i. ends False (RegExp (pre @ escapeRegex s @ post)) t i
                  = (if startsAt (pre @ s @ post) t i then [i + length (pre @ s @ post)] else []))
       \<and> (\<forall>t. regexTest False (RegExp (pre @ escapeRegex s @ post)) t = includes' t (pre @ s @ post))"
proof -
  have p: "parseRegex (pre @ escapeRegex s @ post) = Some (mkSeq (map Chr (pre @ s @ post)))"
    using assms by (rule parseRegex_escaped)
  then have r: "RegExp (pre @ escapeRegex s @ post) = mkSeq (map Chr (pre @ s @ post))"
    by (simp add: RegExp_def)
  have e: "escapeRegex s = concat (map escapeChar s)" by (rule escapeRegex_map)
  have en: "\<forall>t i. ends False (RegExp (pre @ escapeRegex s @ post)) t i
      = (if startsAt (pre @ s @ post) t i then [i + length (pre @ s @ post)] else [])"
    unfolding r by (intro allI ends_literal)
  have te: "\<forall>t. regexTest False (RegExp (pre @ escapeRegex s @ post)) t
      = includes' t (pre @ s @ post)"
    unfolding r by (intro allI regexTest_literal)
  show ?thesis using e p en te by blast
qed

theorem C10_escapeRegex_literal_witness:
  "escapeRegex ''a.c$'' = ''a'' @ bs ''.c'' @ bs ''$''
   \<and> regexTest False (RegExp (''<field>'' @ escapeRegex ''a.c$'' @ ''</field>'')) ''<x><field>a.c$</field></x>''
   \<and> \<not> regexTest False (RegExp (''<field>'' @ escapeRegex ''a.c$'' @ ''</field>'')) ''<x><field>abc$</field></x>''"
proof -
  have "noMeta ''<field>''" and "noMeta ''</field>''" by code_simp+
  note inst = C10_escapeRegex_literal [OF this, of "''a.c$''"]
  have e: "escapeRegex ''a.c$'' = ''a'' @ bs ''.c'' @ bs ''$''"
    using inst by (simp add: escapeChar_def metaChars_def bs_def bslash_def)
  have t: "regexTest False (RegExp (''<field>'' @ escapeRegex ''a.c$'' @ ''</field>'')) t
      = includes' t (''<field>'' @ ''a.c$'' @ ''</field>'')" for t
    using inst by blast
  have "includes' ''<x><field>a.c$</field></x>'' (''<field>'' @ ''a.c$'' @ ''</field>'')"
    and "\<not> includes' ''<x><field>abc$</field></x>'' (''<field>'' @ ''a.c$'' @ ''</field>'')"
    by code_simp+
  then have "regexTest False (RegExp (''<field>'' @ escapeRegex ''a.c$'' @ ''</field>'')) ''<x><field>a.c$</field></x>''
    \<and> \<not> regexTest False (RegExp (''<field>'' @ escapeRegex ''a.c$'' @ ''</field>'')) ''<x><field>abc$</field></x>''"
    by (simp only: t simp_thms)
  then show ?thesis using e by blast
qed

text \<open>Without the escape the dot is a metacharacter: the same text is matched.\<close>

lemma unescaped_dot_matches:
  "regexTest False (RegExp ''<field>a.c</field>'') ''<x><field>abc</field></x>''"
  by code_simp

end
